(* ===== verification/Prelude.thy ===== *)
theory Prelude
  imports Main "HOL-Library.Word" "HOL-Library.Sublist" "HOL-Library.Multiset"
begin

text \<open>
  Shared vocabulary of the development.

  \<^item> Rust's machine integers as words, its \<open>Result\<close> as a sum (\<open>Inl\<close> the error), a call
    that may panic as a value of type \<open>rust\<close>.
  \<^item> Asynchronous tasks. A task of the program (a \<open>tokio::spawn\<close>ed future or a thread) is
    an option-valued step function. One step consumes one \<^emph>\<open>event\<close>: the outcome of the
    operation the task awaits next (what a channel's \<open>recv\<close> returned, whether a \<open>send\<close>
    succeeded, what the operating system answered). It yields the next state and the list
    of effects. \<open>None\<close> means that this event cannot happen there: the branch of the
    \<open>select!\<close> is disabled, or the task is not waiting for that operation. The runtime
    (tokio, the operating system) is thereby a parameter: it is the list of events.
  \<^item> The locale \<open>task\<close> lifts an invariant between the events consumed, the effects emitted
    and the current state from single steps to whole runs. Every task of the program
    interprets it.
\<close>

section \<open>Integers, results, panics\<close>

type_synonym u8 = "8 word"
type_synonym u16 = "16 word"
type_synonym u32 = "32 word"
type_synonym i32 = "32 word"

datatype 'a rust = Panic string | Ret 'a

primrec rust_bind :: "'a rust \<Rightarrow> ('a \<Rightarrow> 'b rust) \<Rightarrow> 'b rust" where
  "rust_bind (Panic msg) f = Panic msg"
| "rust_bind (Ret x) f = f x"

primrec panics :: "'a rust \<Rightarrow> bool" where
  "panics (Panic msg) = True"
| "panics (Ret x) = False"

text \<open>\<open>Option::expect\<close> and \<open>Option::unwrap\<close>.\<close>

definition expect :: "string \<Rightarrow> 'a option \<Rightarrow> 'a rust" where
  "expect msg x = (case x of None \<Rightarrow> Panic msg | Some v \<Rightarrow> Ret v)"

text \<open>\<open>Result::map_err\<close>, \<open>Result::map\<close> and the question mark operator.\<close>

primrec map_err :: "('e \<Rightarrow> 'f) \<Rightarrow> 'e + 'a \<Rightarrow> 'f + 'a" where
  "map_err f (Inl e) = Inl (f e)"
| "map_err f (Inr x) = Inr x"

primrec map_ok :: "('a \<Rightarrow> 'b) \<Rightarrow> 'e + 'a \<Rightarrow> 'e + 'b" where
  "map_ok f (Inl e) = Inl e"
| "map_ok f (Inr x) = Inr (f x)"

primrec and_then :: "'e + 'a \<Rightarrow> ('a \<Rightarrow> 'e + 'b) \<Rightarrow> 'e + 'b" where
  "and_then (Inl e) f = Inl e"
| "and_then (Inr x) f = f x"

definition ok_or :: "'e \<Rightarrow> 'a option \<Rightarrow> 'e + 'a" where
  "ok_or e x = (case x of None \<Rightarrow> Inl e | Some v \<Rightarrow> Inr v)"

lemma expect_simps [simp]:
  "expect msg None = Panic msg"
  "expect msg (Some v) = Ret v"
  by (simp_all add: expect_def)

lemma ok_or_simps [simp]:
  "ok_or e None = Inl e"
  "ok_or e (Some v) = Inr v"
  by (simp_all add: ok_or_def)

lemma rust_bind_Ret_iff: "rust_bind m f = Ret y \<longleftrightarrow> (\<exists>x. m = Ret x \<and> f x = Ret y)"
  by (cases m) auto

lemma and_then_Inr_iff: "and_then r f = Inr y \<longleftrightarrow> (\<exists>x. r = Inr x \<and> f x = Inr y)"
  by (cases r) auto

text \<open>
  \<open>std::io::Error\<close>: an operating system code, a bare kind, or a kind with a custom message.
\<close>

datatype io_error = OsError i32 | KindError string | CustomError string string

text \<open>
  What waiting on a oneshot receiver under a deadline ended with
  (\<open>tokio::time::timeout(d, rx).await\<close>).
\<close>

datatype 'a oneshot_wait = Elapsed | SenderDropped | Received 'a

section \<open>Lists and prefixes\<close>

text \<open>The elements of one kind, in order.\<close>

primrec pick :: "('a \<Rightarrow> 'b option) \<Rightarrow> 'a list \<Rightarrow> 'b list" where
  "pick f [] = []"
| "pick f (x # xs) = (case f x of None \<Rightarrow> pick f xs | Some y \<Rightarrow> y # pick f xs)"

lemma pick_append [simp]: "pick f (xs @ ys) = pick f xs @ pick f ys"
  by (induction xs) (auto split: option.splits)

lemma pick_none: "(\<And>x. x \<in> set xs \<Longrightarrow> f x = None) \<Longrightarrow> pick f xs = []"
  by (induction xs) auto

lemma pick_map [simp]: "pick f (map g xs) = pick (\<lambda>x. f (g x)) xs"
  by (induction xs) (auto split: option.splits)

lemma pick_const_None [simp]: "pick (\<lambda>x. None) xs = []"
  by (induction xs) auto

lemma pick_Some [simp]: "pick (\<lambda>x. Some (g x)) xs = map g xs"
  by (induction xs) auto

lemma set_pick: "y \<in> set (pick f xs) \<longleftrightarrow> (\<exists>x \<in> set xs. f x = Some y)"
  by (induction xs) (auto split: option.splits)

lemma prefix_pick: "prefix xs ys \<Longrightarrow> prefix (pick f xs) (pick f ys)"
  by (auto simp: prefix_def)

lemma prefix_concat: "prefix xs ys \<Longrightarrow> prefix (concat xs) (concat ys)"
  by (auto simp: prefix_def)

section \<open>Runs of a task\<close>

primrec run :: "('s \<Rightarrow> 'e \<Rightarrow> ('s \<times> 'o list) option) \<Rightarrow> 's \<Rightarrow> 'e list \<Rightarrow> ('s \<times> 'o list) option" where
  "run step s [] = Some (s, [])"
| "run step s (e # es) =
     (case step s e of
        None \<Rightarrow> None
      | Some (s1, out1) \<Rightarrow>
          (case run step s1 es of
             None \<Rightarrow> None
           | Some (s2, out2) \<Rightarrow> Some (s2, out1 @ out2)))"

lemma run_append:
  "run step s (es @ fs) =
     (case run step s es of
        None \<Rightarrow> None
      | Some (s1, out1) \<Rightarrow>
          (case run step s1 fs of
             None \<Rightarrow> None
           | Some (s2, out2) \<Rightarrow> Some (s2, out1 @ out2)))"
  by (induction es arbitrary: s) (auto split: option.splits)

lemma run_snocE:
  assumes "run step s (es @ [e]) = Some (s', out)"
  obtains s1 out1 out2 where "run step s es = Some (s1, out1)"
    and "step s1 e = Some (s', out2)" and "out = out1 @ out2"
  using assms by (auto simp: run_append split: option.splits)

lemma run_ConsE:
  assumes "run step s (e # es) = Some (s', out)"
  obtains s1 out1 out2 where "step s e = Some (s1, out1)"
    and "run step s1 es = Some (s', out2)" and "out = out1 @ out2"
  using assms by (auto split: option.splits)

text \<open>
  \<open>inv es out s\<close> relates the events consumed so far, the effects emitted so far and the
  current state. An instance discharges the two laws for one task of the program.
\<close>

locale task =
  fixes step :: "'s \<Rightarrow> 'e \<Rightarrow> ('s \<times> 'o list) option"
    and start :: "'s"
    and inv :: "'e list \<Rightarrow> 'o list \<Rightarrow> 's \<Rightarrow> bool"
  assumes inv_start: "inv [] [] start"
    and inv_step: "inv es out s \<Longrightarrow> step s e = Some (s', out') \<Longrightarrow> inv (es @ [e]) (out @ out') s'"
begin

lemma run_inv_from:
  "inv es0 out0 s0 \<Longrightarrow> run step s0 es = Some (s, out) \<Longrightarrow> inv (es0 @ es) (out0 @ out) s"
proof (induction es arbitrary: es0 out0 s0 out)
  case Nil
  then show ?case by simp
next
  case (Cons e es)
  from Cons.prems(2) obtain s1 out1 out2 where st: "step s0 e = Some (s1, out1)"
    and rest: "run step s1 es = Some (s, out2)" and out: "out = out1 @ out2"
    by (rule run_ConsE)
  from Cons.prems(1) st have "inv (es0 @ [e]) (out0 @ out1) s1" by (rule inv_step)
  from Cons.IH [OF this rest] show ?case by (simp add: out)
qed

lemma run_inv: "run step start es = Some (s, out) \<Longrightarrow> inv es out s"
  using run_inv_from [OF inv_start] by simp

end

text \<open>
  A FIFO channel between two tasks, seen from outside: what the receiver has taken so far is
  a prefix of what the sender has put in. This is the documented contract of the tokio and
  standard library channels (messages arrive in the order sent, none is invented, duplicated
  or overtaken); it is a named hypothesis wherever two tasks are composed.
\<close>

definition fifo :: "'a list \<Rightarrow> 'a list \<Rightarrow> bool" where
  "fifo sent received \<longleftrightarrow> prefix received sent"

lemma fifo_refl [simp]: "fifo xs xs"
  by (simp add: fifo_def)

lemma fifo_pick: "fifo sent received \<Longrightarrow> prefix (pick f received) (pick f sent)"
  by (simp add: fifo_def prefix_pick)

section \<open>A task that owns a sender of the channel it receives from\<close>

text \<open>
  A receiver's \<open>recv\<close> returns \<open>None\<close> only once every sender of the channel is gone (the
  documented contract of \<open>tokio::sync::mpsc\<close>). \<open>closed_only_unheld\<close> is what follows from
  it for one task: an event that reports the end of the channel (\<open>closes\<close>) happens only
  where the task itself holds no sender (\<open>holds\<close>).
\<close>

primrec closed_only_unheld ::
  "('s \<Rightarrow> 'e \<Rightarrow> ('s \<times> 'o list) option) \<Rightarrow> ('e \<Rightarrow> bool) \<Rightarrow> ('s \<Rightarrow> bool) \<Rightarrow> 's \<Rightarrow> 'e list \<Rightarrow> bool" where
  "closed_only_unheld step closes holds s [] \<longleftrightarrow> True"
| "closed_only_unheld step closes holds s (e # es) \<longleftrightarrow>
     (closes e \<longrightarrow> \<not> holds s)
     \<and> (case step s e of
          None \<Rightarrow> True
        | Some (s1, out1) \<Rightarrow> closed_only_unheld step closes holds s1 es)"

lemma closed_only_unheldI:
  "list_all (\<lambda>e. \<not> closes e) es \<Longrightarrow> closed_only_unheld step closes holds s es"
  by (induction es arbitrary: s) (auto split: option.splits)

locale self_held =
  fixes step :: "'s \<Rightarrow> 'e \<Rightarrow> ('s \<times> 'o list) option"
    and closes :: "'e \<Rightarrow> bool"
    and holds :: "'s \<Rightarrow> bool"
  assumes closes_held: "step s e = Some (s', out) \<Longrightarrow> closes e \<Longrightarrow> holds s"
begin

lemma never_closes:
  "run step s es = Some (s', out) \<Longrightarrow> closed_only_unheld step closes holds s es \<Longrightarrow>
   list_all (\<lambda>e. \<not> closes e) es"
proof (induction es arbitrary: s out)
  case Nil
  then show ?case by simp
next
  case (Cons e es)
  from Cons.prems(1) obtain s1 out1 out2 where st: "step s e = Some (s1, out1)"
    and rest: "run step s1 es = Some (s', out2)" by (rule run_ConsE)
  from st Cons.prems(2) have "\<not> closes e" by (auto dest: closes_held)
  moreover from st Cons.prems(2) have "closed_only_unheld step closes holds s1 es" by simp
  ultimately show ?case using Cons.IH [OF rest] by simp
qed

end

section \<open>Decimal numbers\<close>

text \<open>The \<open>Display\<close> of unsigned and signed integers.\<close>

fun show_nat :: "nat \<Rightarrow> string" where
  "show_nat n =
     (if n < 10 then [char_of (48 + n)] else show_nat (n div 10) @ [char_of (48 + n mod 10)])"

declare show_nat.simps [simp del]

definition show_i32 :: "i32 \<Rightarrow> string" where
  "show_i32 w = (if sint w < 0 then ''-'' @ show_nat (nat (- sint w)) else show_nat (nat (sint w)))"

definition read_nat :: "string \<Rightarrow> nat" where
  "read_nat s = foldl (\<lambda>n c. 10 * n + (of_char c - 48)) 0 s"

lemma digit_value: "m < 10 \<Longrightarrow> (of_char (char_of (48 + m)) :: nat) = 48 + m"
  by (simp only: of_char_of) simp

lemma show_nat_small: "n < 10 \<Longrightarrow> show_nat n = [char_of (48 + n)]"
  by (subst show_nat.simps) (simp only: if_True)

lemma show_nat_step:
  "\<not> n < 10 \<Longrightarrow> show_nat n = show_nat (n div 10) @ [char_of (48 + n mod 10)]"
  by (subst show_nat.simps) (simp only: if_False)

lemma read_nat_snoc: "read_nat (s @ [c]) = 10 * read_nat s + (of_char c - 48)"
  by (simp add: read_nat_def)

lemma read_show_nat: "read_nat (show_nat n) = n"
proof (induction n rule: show_nat.induct)
  case (1 n)
  show ?case
  proof (cases "n < 10")
    case True
    then show ?thesis
      by (simp add: show_nat_small read_nat_def digit_value del: of_char_of)
  next
    case False
    from 1 [OF False] have "read_nat (show_nat (n div 10)) = n div 10" .
    then have "read_nat (show_nat n) = 10 * (n div 10) + n mod 10"
      by (simp add: show_nat_step [OF False] read_nat_snoc digit_value del: of_char_of)
    then show ?thesis by simp
  qed
qed

lemma show_nat_inj: "show_nat m = show_nat n \<Longrightarrow> m = n"
  by (metis read_show_nat)

lemma show_nat_digits: "c \<in> set (show_nat n) \<Longrightarrow> \<exists>m < (10 :: nat). c = char_of (48 + m)"
proof (induction n rule: show_nat.induct)
  case (1 n)
  show ?case
  proof (cases "n < 10")
    case True
    with 1(2) have "c = char_of (48 + n)" by (simp add: show_nat_small)
    with True show ?thesis by blast
  next
    case False
    from 1(2) have "c \<in> set (show_nat (n div 10)) \<or> c = char_of (48 + n mod 10)"
      unfolding show_nat_step [OF False] by auto
    moreover have "n mod 10 < 10" by simp
    ultimately show ?thesis using 1(1) [OF False] by blast
  qed
qed

lemma show_nat_no_sign: "CHR ''-'' \<notin> set (show_nat n)"
proof
  assume "CHR ''-'' \<in> set (show_nat n)"
  then obtain m :: nat where "m < 10" and "CHR ''-'' = char_of (48 + m)"
    using show_nat_digits by blast
  then have "(of_char (CHR ''-'') :: nat) = 48 + m" using digit_value by simp
  then show False by simp
qed

lemma show_nat_ne [simp]: "show_nat n \<noteq> []"
  by (subst show_nat.simps) simp

lemma show_i32_inj: "show_i32 v = show_i32 w \<Longrightarrow> v = w"
proof -
  assume eq: "show_i32 v = show_i32 w"
  have "show_nat a \<noteq> CHR ''-'' # show_nat b" for a b
    using show_nat_no_sign [of a] by (metis list.set_intros(1))
  with eq have "sint v = sint w"
    by (auto simp: show_i32_def split: if_splits dest: show_nat_inj dest: sym)
  then show "v = w" by (rule signed_word_eqI)
qed

end
