(* ===== verification/Types.thy ===== *)
theory Types
  imports Prelude
begin

text \<open>
  The value types of \<open>src/src/proc/types.rs\<close>. A \<open>DateTime<Utc>\<close> (chrono) is the type
  variable \<open>'dt\<close> and every \<open>Utc::now()\<close> an argument \<open>now\<close>; the text of a fresh UUID is
  an argument of \<open>JobId_default\<close>; an \<open>OsString\<close> is the type variable \<open>'os\<close>, and an
  \<open>impl Into<OsString>\<close> argument comes with its conversion function. \<open>String\<close> is its UTF-8
  bytes.
\<close>

section \<open>Users and contexts\<close>

record user =
  user_id :: string

record ctx =
  ctx_user :: user

definition User_from :: "string \<Rightarrow> user" where
  "User_from value = \<lparr>user_id = value\<rparr>"

definition User_fmt :: "user \<Rightarrow> string" where
  "User_fmt u = user_id u"

definition Ctx_fmt :: "ctx \<Rightarrow> string" where
  "Ctx_fmt c = User_fmt (ctx_user c)"

section \<open>Job specifications\<close>

record 'os job_spec =
  exe :: "'os"
  args :: "'os list"

definition JobSpec_new :: "('a \<Rightarrow> 'os) \<Rightarrow> 'a \<Rightarrow> 'os job_spec" where
  "JobSpec_new into x = \<lparr>exe = into x, args = []\<rparr>"

definition JobSpec_exe_and_args :: "'os job_spec \<Rightarrow> 'os list" where
  "JobSpec_exe_and_args spec = [exe spec] @ args spec"

text \<open>The loop that pushes one argument after the other.\<close>

primrec JobSpec_args :: "('a \<Rightarrow> 'os) \<Rightarrow> 'os job_spec \<Rightarrow> 'a list \<Rightarrow> 'os job_spec" where
  "JobSpec_args into spec [] = spec"
| "JobSpec_args into spec (x # xs) = JobSpec_args into (spec\<lparr>args := args spec @ [into x]\<rparr>) xs"

definition JobSpec_arg :: "('a \<Rightarrow> 'os) \<Rightarrow> 'os job_spec \<Rightarrow> 'a \<Rightarrow> 'os job_spec" where
  "JobSpec_arg into spec x = JobSpec_args into spec [x]"

section \<open>Jobs\<close>

datatype job_id = JobId string

definition JobId_default :: "string \<Rightarrow> job_id" where
  "JobId_default uuid = JobId uuid"

primrec JobId_deref :: "job_id \<Rightarrow> string" where
  "JobId_deref (JobId s) = s"

datatype pid = Pid (pid_num: u32)

text \<open>The derived \<open>PartialOrd\<close>, \<open>Ord\<close> of \<open>Pid\<close> compare the unsigned numbers.\<close>

instantiation pid :: linorder
begin

definition less_eq_pid :: "pid \<Rightarrow> pid \<Rightarrow> bool" where
  "less_eq_pid p q \<longleftrightarrow> pid_num p \<le> pid_num q"

definition less_pid :: "pid \<Rightarrow> pid \<Rightarrow> bool" where
  "less_pid p q \<longleftrightarrow> pid_num p < pid_num q"

instance
  by standard (auto simp: less_eq_pid_def less_pid_def pid.expand)

end

text \<open>
  \<open>std::process::ExitStatus\<close>: the process returned a code or, on Unix, was ended by a
  signal; \<open>code()\<close> is \<open>None\<close> for a signal.
\<close>

datatype os_exit = OsCode i32 | OsSignal i32

primrec os_code :: "os_exit \<Rightarrow> i32 option" where
  "os_code (OsCode c) = Some c"
| "os_code (OsSignal s) = None"

record exit_status =
  code :: "i32 option"

definition ExitStatus_from_i32 :: "i32 \<Rightarrow> exit_status" where
  "ExitStatus_from_i32 value = \<lparr>code = Some value\<rparr>"

definition ExitStatus_from_std :: "os_exit \<Rightarrow> exit_status" where
  "ExitStatus_from_std es = \<lparr>code = os_code es\<rparr>"

datatype job_state = Running pid | Exited exit_status

definition JobState_exited :: "('a \<Rightarrow> exit_status) \<Rightarrow> 'a \<Rightarrow> job_state" where
  "JobState_exited into status = Exited (into status)"

primrec is_running :: "job_state \<Rightarrow> bool" where
  "is_running (Running p) = True"
| "is_running (Exited st) = False"

primrec is_exited :: "job_state \<Rightarrow> bool" where
  "is_exited (Running p) = False"
| "is_exited (Exited st) = True"

record 'dt job_killed =
  killed_at :: "'dt"
  killed_user :: user

record 'dt job =
  jid :: job_id
  job_user :: user
  killed :: "'dt job_killed option"
  started_at :: "'dt"
  ended_at :: "'dt option"
  state :: job_state

definition Job_started :: "job_id \<Rightarrow> user \<Rightarrow> pid \<Rightarrow> 'dt \<Rightarrow> 'dt job" where
  "Job_started i u p now =
     \<lparr>jid = i, job_user = u, killed = None, started_at = now, ended_at = None,
      state = Running p\<rparr>"

section \<open>Lemmas\<close>

lemma is_exited_iff: "is_exited st \<longleftrightarrow> \<not> is_running st"
  by (cases st) auto

lemma Job_started_simps [simp]:
  "jid (Job_started i u p now) = i"
  "job_user (Job_started i u p now) = u"
  "killed (Job_started i u p now) = None"
  "started_at (Job_started i u p now) = now"
  "ended_at (Job_started i u p now) = None"
  "state (Job_started i u p now) = Running p"
  by (simp_all add: Job_started_def)

lemma JobSpec_args_sel [simp]:
  "exe (JobSpec_args into spec xs) = exe spec"
  "args (JobSpec_args into spec xs) = args spec @ map into xs"
  by (induction xs arbitrary: spec) auto

lemma JobSpec_args_append:
  "JobSpec_args into spec (xs @ ys) = JobSpec_args into (JobSpec_args into spec xs) ys"
  by (induction xs arbitrary: spec) auto

end
