(* ===== verification/Frames.thy ===== *)
theory Frames
  imports Types
begin

text \<open>
  Output frames (\<open>StreamKind\<close>, \<open>Frame\<close>, \<open>FrameEvent\<close>, \<open>TrackerError\<close> of
  \<open>src/src/proc/coord.rs\<close>) and the task \<open>JobTracker::consume_output\<close>, which cuts one
  output stream of the child into frames. The stream is a parameter: an event carries what
  \<open>read\<close> on it returned. \<open>consume_inv\<close> says which frames are in the channel at every
  moment.
\<close>

section \<open>Frames and events\<close>

datatype stream_kind = Stdout | Stderr

primrec StreamKind_fmt :: "stream_kind \<Rightarrow> string" where
  "StreamKind_fmt Stdout = ''stdout''"
| "StreamKind_fmt Stderr = ''stderr''"

record frame =
  frame_kind :: stream_kind
  frame_bs :: "u8 list"

definition Frame_new :: "stream_kind \<Rightarrow> u8 list \<Rightarrow> frame" where
  "Frame_new kind bs = \<lparr>frame_kind = kind, frame_bs = bs\<rparr>"

text \<open>
  \<open>BroadcasterDisappeared\<close> holds a \<open>SendError<FrameEvent>\<close>, that is the event that could
  not be sent.
\<close>

datatype 'ev tracker_err =
    WaitChild io_error
  | ReadOutput stream_kind io_error
  | BroadcasterDisappeared 'ev

datatype frame_event =
    FrameEv frame
  | ErrorEv "frame_event tracker_err"
  | EofEv

type_synonym tracker_error = "frame_event tracker_err"

text \<open>
  The \<open>Display\<close> that \<open>thiserror\<close> derives from the format strings; the texts of the wrapped
  errors are arguments.
\<close>

definition TrackerError_fmt :: "(io_error \<Rightarrow> string) \<Rightarrow> (frame_event \<Rightarrow> string) \<Rightarrow> tracker_error \<Rightarrow> string" where
  "TrackerError_fmt io_fmt send_fmt e =
     (case e of
        WaitChild err \<Rightarrow> ''failed to wait for child process: '' @ io_fmt err
      | ReadOutput kind err \<Rightarrow> ''read '' @ StreamKind_fmt kind @ '': '' @ io_fmt err
      | BroadcasterDisappeared ev \<Rightarrow> ''broadcaster disappeared: '' @ send_fmt ev)"

fun event_frame :: "frame_event \<Rightarrow> frame option" where
  "event_frame (FrameEv f) = Some f"
| "event_frame (ErrorEv e) = None"
| "event_frame EofEv = None"

definition terminal :: "frame_event \<Rightarrow> bool" where
  "terminal ev \<longleftrightarrow> event_frame ev = None"

definition kind_bytes :: "stream_kind \<Rightarrow> frame list \<Rightarrow> u8 list" where
  "kind_bytes k fs = concat (map frame_bs (filter (\<lambda>f. frame_kind f = k) fs))"

lemma terminal_simps [simp]:
  "\<not> terminal (FrameEv f)" "terminal (ErrorEv e)" "terminal EofEv"
  by (simp_all add: terminal_def)

lemma Frame_new_sel [simp]:
  "frame_kind (Frame_new k bs) = k" "frame_bs (Frame_new k bs) = bs"
  by (simp_all add: Frame_new_def)

lemma kind_bytes_simps [simp]:
  "kind_bytes k [] = []"
  "kind_bytes k (f # fs) = (if frame_kind f = k then frame_bs f else []) @ kind_bytes k fs"
  "kind_bytes k (fs @ gs) = kind_bytes k fs @ kind_bytes k gs"
  by (simp_all add: kind_bytes_def)

lemma kind_bytes_prefix: "prefix fs gs \<Longrightarrow> prefix (kind_bytes k fs) (kind_bytes k gs)"
  by (auto simp: prefix_def)

section \<open>Reading one output stream\<close>

text \<open>
  Where the task waits. \<open>Reading\<close>: at \<open>s.read(&mut buf[..])\<close> with a zeroed buffer of
  1024 bytes; \<open>SendFrame f\<close>: at \<open>tx.send(Ok(frame))\<close>; \<open>SendErr e\<close>: at the final
  \<open>tx.send(Err(err))\<close>. \<open>ConsumePanic\<close> is the panic of the slice \<open>&buf[0..n]\<close>.
\<close>

datatype consume_pc =
    Reading
  | SendFrame frame
  | SendErr tracker_error
  | Consumed
  | ConsumePanic

text \<open>
  \<open>ReadDone (Inr (buf, n))\<close>: \<open>read\<close> returned \<open>n\<close> and the buffer now holds \<open>buf\<close>.
  \<open>SendDone ok\<close>: \<open>send\<close> returned.
\<close>

datatype consume_event =
    ReadDone "io_error + (u8 list \<times> nat)"
  | SendDone bool

fun consume_step ::
  "stream_kind \<Rightarrow> consume_pc \<Rightarrow> consume_event \<Rightarrow> (consume_pc \<times> (tracker_error + frame) list) option" where
  "consume_step kind Reading (ReadDone (Inl err)) = Some (SendErr (ReadOutput kind err), [])"
| "consume_step kind Reading (ReadDone (Inr (buf, n))) =
     (if n = 0 then Some (Consumed, [])
      else if length buf < n then Some (ConsumePanic, [])
      else Some (SendFrame (Frame_new kind (take n buf)), []))"
| "consume_step kind (SendFrame f) (SendDone ok) =
     (if ok then Some (Reading, [Inr f]) else Some (Consumed, []))"
| "consume_step kind (SendErr e) (SendDone ok) =
     Some (Consumed, if ok then [Inl e] else [])"
| "consume_step kind pc ev = None"

definition consume_output ::
  "stream_kind \<Rightarrow> consume_event list \<Rightarrow> (consume_pc \<times> (tracker_error + frame) list) option" where
  "consume_output kind es = run (consume_step kind) Reading es"

section \<open>What has been read, and what the channel holds\<close>

fun chunk :: "consume_event \<Rightarrow> u8 list option" where
  "chunk (ReadDone (Inr (buf, n))) = (if n = 0 then None else Some (take n buf))"
| "chunk ev = None"

abbreviation chunks :: "consume_event list \<Rightarrow> u8 list list" where
  "chunks es \<equiv> pick chunk es"

text \<open>The contract of \<open>AsyncRead\<close>: a read never reports more bytes than the buffer has.\<close>

fun read_within :: "consume_event \<Rightarrow> bool" where
  "read_within (ReadDone (Inr (buf, n))) \<longleftrightarrow> length buf = 1024 \<and> n \<le> 1024"
| "read_within ev \<longleftrightarrow> True"

fun at_eof :: "consume_event \<Rightarrow> bool" where
  "at_eof (ReadDone (Inr (buf, n))) \<longleftrightarrow> n = 0"
| "at_eof ev \<longleftrightarrow> False"

definition sent_frames :: "stream_kind \<Rightarrow> u8 list list \<Rightarrow> (tracker_error + frame) list" where
  "sent_frames k cs = map (\<lambda>c. Inr (Frame_new k c)) cs"

text \<open>
  The invariant of the task: everything read is in the channel, except the frame in hand;
  an error is the last thing sent; and after an end of file nothing is missing.
\<close>

definition consume_inv ::
  "stream_kind \<Rightarrow> consume_event list \<Rightarrow> (tracker_error + frame) list \<Rightarrow> consume_pc \<Rightarrow> bool" where
  "consume_inv k es out pc \<longleftrightarrow>
     (case pc of
        Reading \<Rightarrow> out = sent_frames k (chunks es) \<and> \<not> list_ex at_eof es
      | SendFrame f \<Rightarrow>
          (\<exists>cs c. chunks es = cs @ [c] \<and> f = Frame_new k c \<and> out = sent_frames k cs)
          \<and> \<not> list_ex at_eof es
      | SendErr e \<Rightarrow> out = sent_frames k (chunks es) \<and> (\<exists>err. e = ReadOutput k err)
          \<and> \<not> list_ex at_eof es
      | Consumed \<Rightarrow>
          (\<exists>cs. prefix cs (chunks es) \<and>
             (out = sent_frames k cs \<or> (\<exists>err. out = sent_frames k cs @ [Inl (ReadOutput k err)])))
          \<and> (list_ex at_eof es \<longrightarrow> out = sent_frames k (chunks es))
      | ConsumePanic \<Rightarrow> \<not> list_all read_within es)"

lemma sent_frames_simps [simp]:
  "sent_frames k [] = []"
  "sent_frames k (cs @ ds) = sent_frames k cs @ sent_frames k ds"
  "sent_frames k (c # cs) = Inr (Frame_new k c) # sent_frames k cs"
  by (simp_all add: sent_frames_def)

lemma consume_inv_step:
  "consume_inv k es out pc \<Longrightarrow> consume_step k pc e = Some (pc', out') \<Longrightarrow>
   consume_inv k (es @ [e]) (out @ out') pc'"
  by (cases "(k, pc, e)" rule: consume_step.cases)
     (auto simp: consume_inv_def split: if_splits intro: prefix_order.refl)

interpretation consumer: task "consume_step k" Reading "consume_inv k" for k
  by unfold_locales (simp add: consume_inv_def, rule consume_inv_step)

lemma consume_output_inv:
  "consume_output k es = Some (pc, out) \<Longrightarrow> consume_inv k es out pc"
  unfolding consume_output_def by (rule consumer.run_inv)

text \<open>
  Unless a send failed, a task that is through has seen the end of the stream, with every
  byte in the channel, or has reported an error last.
\<close>

definition consume_end_inv ::
  "stream_kind \<Rightarrow> consume_event list \<Rightarrow> (tracker_error + frame) list \<Rightarrow> consume_pc \<Rightarrow> bool" where
  "consume_end_inv k es out pc \<longleftrightarrow>
     pc = Consumed \<and> SendDone False \<notin> set es \<longrightarrow>
       list_ex at_eof es \<or> (\<exists>err. Inl err \<in> set out)"

lemma consume_end_inv_step:
  "consume_step k pc e = Some (pc', out') \<Longrightarrow> consume_end_inv k es out pc \<Longrightarrow>
   consume_end_inv k (es @ [e]) (out @ out') pc'"
  by (cases "(k, pc, e)" rule: consume_step.cases)
     (auto simp: consume_end_inv_def split: if_splits)

interpretation consumer_end: task "consume_step k" Reading "consume_end_inv k" for k
  by unfold_locales (simp add: consume_end_inv_def, rule consume_end_inv_step)

lemma consume_output_complete:
  assumes run: "consume_output k es = Some (Consumed, out)"
    and sends: "SendDone False \<notin> set es" and no_err: "\<And>err. Inl err \<notin> set out"
  shows "out = sent_frames k (chunks es)"
proof -
  from run have "consume_end_inv k es out Consumed"
    unfolding consume_output_def by (rule consumer_end.run_inv)
  with sends no_err have "list_ex at_eof es" by (auto simp: consume_end_inv_def)
  with consume_output_inv [OF run] show ?thesis by (simp add: consume_inv_def)
qed

lemma consume_output_frames:
  assumes "consume_output k es = Some (pc, out)" and "list_all read_within es"
  shows "\<exists>cs. prefix cs (chunks es)
    \<and> (out = sent_frames k cs \<or> (\<exists>err. out = sent_frames k cs @ [Inl (ReadOutput k err)]))"
  using consume_output_inv [OF assms(1)] assms(2)
  by (cases pc) (auto simp: consume_inv_def)

section \<open>Properties\<close>

lemma consume_no_panic:
  "consume_output k es = Some (pc, out) \<Longrightarrow> list_all read_within es \<Longrightarrow> pc \<noteq> ConsumePanic"
  using consume_output_inv [of k es pc out] by (cases pc) (auto simp: consume_inv_def)

lemma at_eof_consumed:
  assumes "consume_inv k es out pc" and "list_ex at_eof es" and "list_all read_within es"
  shows "pc = Consumed \<and> out = sent_frames k (chunks es)"
  using assms by (cases pc) (auto simp: consume_inv_def)

lemma chunk_size: "read_within e \<Longrightarrow> chunk e = Some c \<Longrightarrow> 1 \<le> length c \<and> length c \<le> 1024"
  by (cases e rule: chunk.cases) (auto split: if_splits)

lemma chunks_size:
  assumes "list_all read_within es" and "c \<in> set (chunks es)"
  shows "1 \<le> length c \<and> length c \<le> 1024"
  using assms chunk_size by (auto simp: set_pick list_all_iff)

text \<open>What a successful or failed read puts into the hand of the task, to be sent.\<close>

fun read_item :: "stream_kind \<Rightarrow> consume_event \<Rightarrow> (tracker_error + frame) option" where
  "read_item k (ReadDone (Inl err)) = Some (Inl (ReadOutput k err))"
| "read_item k (ReadDone (Inr (buf, n))) = (if n = 0 then None else Some (Inr (Frame_new k (take n buf))))"
| "read_item k (SendDone ok) = None"

fun in_hand :: "consume_pc \<Rightarrow> (tracker_error + frame) list" where
  "in_hand (SendFrame f) = [Inr f]"
| "in_hand (SendErr e) = [Inl e]"
| "in_hand pc = []"

definition items_inv ::
  "stream_kind \<Rightarrow> consume_event list \<Rightarrow> (tracker_error + frame) list \<Rightarrow> consume_pc \<Rightarrow> bool" where
  "items_inv k es out pc \<longleftrightarrow> pc = ConsumePanic \<or>
     (if SendDone False \<in> set es then pc = Consumed \<and> (\<exists>x. pick (read_item k) es = out @ [x])
      else pick (read_item k) es = out @ in_hand pc)
     \<and> (pc = Consumed \<longleftrightarrow> list_ex at_eof es \<or> SendDone False \<in> set es \<or> (\<exists>err. Inl err \<in> set out))"

lemma items_inv_step:
  "items_inv k es out pc \<Longrightarrow> consume_step k pc e = Some (pc', out') \<Longrightarrow>
   items_inv k (es @ [e]) (out @ out') pc'"
  by (cases "(k, pc, e)" rule: consume_step.cases) (auto simp: items_inv_def split: if_splits)

interpretation consumer_items: task "consume_step k" Reading "items_inv k" for k
  by unfold_locales (simp add: items_inv_def, rule items_inv_step)

text \<open>
  C24: \<open>consume_output\<close> sends what it reads, item by item and in the order read: a frame for each
  read that returns bytes, of 1 to 1024 bytes and exactly those, and the error of a read that
  fails. While no send has failed, everything read is in the channel, except the item in hand;
  when one fails, the task has returned and only that item is lost. The task returns exactly at
  the end of the file, after a failed send, or after having passed on a read error, which is the
  last thing sent. At an end of file everything is in the channel. The slice never panics.
\<close>

theorem consume_output_frames_in_order:
  assumes run: "consume_output k es = Some (pc, out)" and reads: "list_all read_within es"
  shows "pc \<noteq> ConsumePanic
    \<and> (if SendDone False \<in> set es then pc = Consumed \<and> (\<exists>x. pick (read_item k) es = out @ [x])
       else pick (read_item k) es = out @ in_hand pc)
    \<and> (pc = Consumed \<longleftrightarrow> list_ex at_eof es \<or> SendDone False \<in> set es \<or> (\<exists>err. Inl err \<in> set out))
    \<and> (\<exists>cs. prefix cs (chunks es) \<and> list_all (\<lambda>c. 1 \<le> length c \<and> length c \<le> 1024) cs
         \<and> (out = sent_frames k cs \<or> (\<exists>err. out = sent_frames k cs @ [Inl (ReadOutput k err)])))
    \<and> (list_ex at_eof es \<longrightarrow> pc = Consumed \<and> out = sent_frames k (chunks es))"
proof -
  from consume_output_frames [OF run reads] obtain cs where cs: "prefix cs (chunks es)"
    and out: "out = sent_frames k cs \<or> (\<exists>err. out = sent_frames k cs @ [Inl (ReadOutput k err)])"
    by blast
  from cs have "list_all (\<lambda>c. 1 \<le> length c \<and> length c \<le> 1024) cs"
    using chunks_size [OF reads] set_mono_prefix [OF cs] by (auto simp: list_all_iff)
  moreover from run have "items_inv k es out pc"
    unfolding consume_output_def by (rule consumer_items.run_inv)
  ultimately show ?thesis
    using cs out consume_no_panic [OF run reads] at_eof_consumed [OF consume_output_inv [OF run] _ reads]
    unfolding items_inv_def by blast
qed

definition sample_reads :: "consume_event list" where
  "sample_reads =
     [ReadDone (Inr ([104, 105] @ replicate 1022 0, 2)), SendDone True,
      ReadDone (Inr (replicate 1024 0, 0))]"

lemma sample_reads_facts:
  "consume_output Stdout sample_reads = Some (Consumed, [Inr (Frame_new Stdout [104, 105])])"
  "list_all read_within sample_reads" "list_ex at_eof sample_reads"
  "chunks sample_reads = [[104, 105]]"
  by (simp_all add: sample_reads_def consume_output_def)

text \<open>A stream whose second read fails.\<close>

definition sample_failed_reads :: "consume_event list" where
  "sample_failed_reads =
     [ReadDone (Inr ([33] @ replicate 1023 0, 1)), SendDone True, ReadDone (Inl (OsError 5)), SendDone True]"

lemma sample_failed_run:
  "consume_output Stderr sample_failed_reads =
     Some (Consumed, [Inr (Frame_new Stderr [33]), Inl (ReadOutput Stderr (OsError 5))])"
  "list_all read_within sample_failed_reads"
  by (simp_all add: sample_failed_reads_def consume_output_def)

lemma consume_output_frames_in_order_witness:
  "[Inr (Frame_new Stdout [104, 105])] = sent_frames Stdout (chunks sample_reads)
   \<and> pick (read_item Stderr) sample_failed_reads = [Inr (Frame_new Stderr [33]), Inl (ReadOutput Stderr (OsError 5))]"
  using consume_output_frames_in_order [OF sample_reads_facts(1,2)] sample_reads_facts(3)
    consume_output_frames_in_order [OF sample_failed_run]
  by (auto simp: sample_failed_reads_def)

end
