(* ===== verification/Tracker.thy ===== *)
theory Tracker
  imports Frames
begin

text \<open>
  \<open>JobTracker\<close> of \<open>src/src/proc/coord.rs\<close>: its shared state (\<open>JobTrackerInner\<close>), the
  control loop \<open>wait\<close> that owns the child process, and \<open>kill\<close>. The loop is a task in the
  sense of \<open>Prelude\<close>: an event is the branch of the \<open>select!\<close> that completed, with what
  its future returned and what the awaits in its handler returned. The lemmas give what the
  loop sends to the broadcaster, the life of the job record and the fate of every kill
  request.
\<close>

section \<open>State\<close>

text \<open>A kill request; the oneshot channel for its answer is a number.\<close>

record kill_request =
  req_user :: user
  req_tx :: nat

definition KillRequest_new :: "ctx \<Rightarrow> nat \<Rightarrow> kill_request" where
  "KillRequest_new c tx = \<lparr>req_user = ctx_user c, req_tx = tx\<rparr>"

record 'dt tracker_inner =
  ti_job :: "'dt job"
  ti_res :: "(tracker_error + unit) option"
  ti_kill_tx :: nat
  ti_bcast :: nat

text \<open>
  The state that \<open>track\<close> creates; the fresh channel for kill requests and the broadcaster
  are arguments. The tasks that it starts are \<open>start_tasks\<close> of \<open>LogPath\<close>.
\<close>

definition JobTracker_track :: "'dt job \<Rightarrow> nat \<Rightarrow> nat \<Rightarrow> 'dt tracker_inner" where
  "JobTracker_track job kill_tx bcast =
     \<lparr>ti_job = job, ti_res = None, ti_kill_tx = kill_tx, ti_bcast = bcast\<rparr>"

text \<open>
  Where \<open>wait\<close> is: in the select loop, after its \<open>break\<close>, or returned.
\<close>

datatype wait_pc = Looping | Broken | Complete

record 'dt wait_state =
  w_inner :: "'dt tracker_inner"
  stdout_ok :: bool
  stderr_ok :: bool
  kill_ok :: bool
  child_ok :: bool
  loop_err :: "tracker_error option"
  kill_reqs :: "kill_request list"
  w_pc :: wait_pc

definition wait_start :: "'dt tracker_inner \<Rightarrow> 'dt wait_state" where
  "wait_start inner =
     \<lparr>w_inner = inner, stdout_ok = True, stderr_ok = True, kill_ok = True, child_ok = True,
      loop_err = None, kill_reqs = [], w_pc = Looping\<rparr>"

section \<open>The select loop\<close>

text \<open>
  \<open>StreamRecv k ev sent\<close>: \<open>recv\<close> on the frames of stream \<open>k\<close> returned \<open>ev\<close>; when that
  is a frame, \<open>sent\<close> tells whether \<open>frame_tx.send\<close> succeeded. \<open>KillRecv req res now\<close>:
  a request arrived (or every sender is gone) and \<open>child.kill()\<close> returned \<open>res\<close>.
  \<open>ChildWait res now\<close>: \<open>child.wait()\<close> returned. \<open>LastSend sent\<close>: the send of the final
  event, after the loop. What a branch awaits in its body (the send, the kill) blocks the whole
  loop, so a branch is one event, at the time its body is through; while the body waits, the
  task makes no step.
\<close>

datatype 'dt wait_event =
    StreamRecv stream_kind "(tracker_error + frame) option" bool
  | KillRecv "kill_request option" "io_error + unit" "'dt"
  | ChildWait "io_error + os_exit" "'dt"
  | LastSend bool

text \<open>
  Effects: an event put into the broadcaster's channel, an answer on a request's oneshot, a
  oneshot dropped without an answer.
\<close>

datatype 'dt wait_out =
    ToBcast frame_event
  | Reply kill_request "io_error + 'dt job"
  | DropReq kill_request

primrec stream_ok :: "stream_kind \<Rightarrow> 'dt wait_state \<Rightarrow> bool" where
  "stream_ok Stdout st = stdout_ok st"
| "stream_ok Stderr st = stderr_ok st"

primrec stream_off :: "stream_kind \<Rightarrow> 'dt wait_state \<Rightarrow> 'dt wait_state" where
  "stream_off Stdout st = st\<lparr>stdout_ok := False\<rparr>"
| "stream_off Stderr st = st\<lparr>stderr_ok := False\<rparr>"

definition break_err :: "tracker_error \<Rightarrow> 'dt wait_state \<Rightarrow> 'dt wait_state" where
  "break_err err st = st\<lparr>loop_err := Some err, w_pc := Broken\<rparr>"

definition on_stream ::
  "stream_kind \<Rightarrow> (tracker_error + frame) option \<Rightarrow> bool \<Rightarrow> 'dt wait_state
    \<Rightarrow> 'dt wait_state \<times> 'dt wait_out list" where
  "on_stream k ev sent st =
     (case ev of
        None \<Rightarrow> (stream_off k st, [])
      | Some (Inl err) \<Rightarrow> (break_err err st, [])
      | Some (Inr f) \<Rightarrow>
          if sent then (st, [ToBcast (FrameEv f)])
          else (break_err (BroadcasterDisappeared (FrameEv f)) st, []))"

definition set_killed :: "'dt \<Rightarrow> user \<Rightarrow> 'dt wait_state \<Rightarrow> 'dt wait_state" where
  "set_killed now u st =
     st\<lparr>w_inner := (w_inner st)\<lparr>ti_job :=
          (ti_job (w_inner st))\<lparr>killed := Some \<lparr>killed_at = now, killed_user = u\<rparr>\<rparr>\<rparr>\<rparr>"

definition on_kill ::
  "kill_request option \<Rightarrow> io_error + unit \<Rightarrow> 'dt \<Rightarrow> 'dt wait_state
    \<Rightarrow> 'dt wait_state \<times> 'dt wait_out list" where
  "on_kill kill_req res now st =
     (case kill_req of
        None \<Rightarrow> (st\<lparr>kill_ok := False\<rparr>, [])
      | Some req \<Rightarrow>
          (case res of
             Inl err \<Rightarrow> (st, [Reply req (Inl err)])
           | Inr _ \<Rightarrow>
               let st = set_killed now (req_user req) st
               in (st\<lparr>kill_reqs := kill_reqs st @ [req]\<rparr>, [])))"

definition set_exited :: "'dt \<Rightarrow> os_exit \<Rightarrow> 'dt wait_state \<Rightarrow> 'dt wait_state" where
  "set_exited now status st =
     st\<lparr>w_inner := (w_inner st)\<lparr>ti_job :=
          (ti_job (w_inner st))\<lparr>ended_at := Some now,
                                 state := Exited (ExitStatus_from_std status)\<rparr>\<rparr>\<rparr>"

definition on_child ::
  "io_error + os_exit \<Rightarrow> 'dt \<Rightarrow> 'dt wait_state \<Rightarrow> 'dt wait_state \<times> 'dt wait_out list" where
  "on_child res now st =
     (let st = st\<lparr>child_ok := False\<rparr> in
      case res of
        Inr status \<Rightarrow>
          let st = set_exited now status st in
          (st\<lparr>kill_reqs := []\<rparr>,
           map (\<lambda>req. Reply req (Inr (ti_job (w_inner st)))) (kill_reqs st))
      | Inl err \<Rightarrow> (break_err (WaitChild err) st, []))"

text \<open>The test at the top of every iteration.\<close>

definition loop_top :: "'dt wait_state \<Rightarrow> 'dt wait_state" where
  "loop_top st =
     (if w_pc st = Looping \<and> \<not> child_ok st \<and> \<not> stdout_ok st \<and> \<not> stderr_ok st
      then st\<lparr>w_pc := Broken\<rparr> else st)"

text \<open>
  What follows the loop. The requests still held are dropped with the task's locals.
\<close>

definition finish :: "bool \<Rightarrow> 'dt wait_state \<Rightarrow> 'dt wait_state \<times> 'dt wait_out list" where
  "finish sent st =
     (let (ev, res) = (case loop_err st of
                         Some err \<Rightarrow> (ErrorEv err, Inl err)
                       | None \<Rightarrow> (EofEv, Inr ()))
      in (st\<lparr>w_inner := (w_inner st)\<lparr>ti_res := Some res\<rparr>, kill_reqs := [], w_pc := Complete\<rparr>,
          (if sent then [ToBcast ev] else []) @ map DropReq (kill_reqs st)))"

fun wait_step ::
  "'dt wait_state \<Rightarrow> 'dt wait_event \<Rightarrow> ('dt wait_state \<times> 'dt wait_out list) option" where
  "wait_step st (StreamRecv k ev sent) =
     (if w_pc st = Looping \<and> stream_ok k st then Some (apfst loop_top (on_stream k ev sent st))
      else None)"
| "wait_step st (KillRecv req res now) =
     (if w_pc st = Looping \<and> kill_ok st then Some (apfst loop_top (on_kill req res now st))
      else None)"
| "wait_step st (ChildWait res now) =
     (if w_pc st = Looping \<and> child_ok st then Some (apfst loop_top (on_child res now st))
      else None)"
| "wait_step st (LastSend sent) =
     (if w_pc st = Broken then Some (finish sent st) else None)"

definition JobTracker_wait ::
  "'dt tracker_inner \<Rightarrow> 'dt wait_event list \<Rightarrow> ('dt wait_state \<times> 'dt wait_out list) option" where
  "JobTracker_wait inner es = run wait_step (wait_start inner) es"

section \<open>Asking for a kill\<close>

datatype kill_error = ReqSendFailed | ReqTimeout | TxDropped | Failed io_error

text \<open>
  \<open>kill_send\<close> is the outcome of \<open>tx.send(req)\<close> on the tracker's channel, \<open>kill_reply\<close> of
  waiting one second for the answer.
\<close>

definition JobTracker_request :: "'dt tracker_inner \<Rightarrow> ctx \<Rightarrow> nat \<Rightarrow> nat \<times> kill_request" where
  "JobTracker_request inner c tx = (ti_kill_tx inner, KillRequest_new c tx)"

definition JobTracker_kill ::
  "(nat \<Rightarrow> kill_request \<Rightarrow> bool) \<Rightarrow> (kill_request \<Rightarrow> (io_error + 'dt job) oneshot_wait)
    \<Rightarrow> 'dt tracker_inner \<Rightarrow> ctx \<Rightarrow> nat \<Rightarrow> kill_error + 'dt job" where
  "JobTracker_kill kill_send kill_reply inner c tx =
     (let (chan, req) = JobTracker_request inner c tx in
      if \<not> kill_send chan req then Inl ReqSendFailed
      else (case kill_reply req of
              Elapsed \<Rightarrow> Inl ReqTimeout
            | SenderDropped \<Rightarrow> Inl TxDropped
            | Received (Inl err) \<Rightarrow> Inl (Failed err)
            | Received (Inr job) \<Rightarrow> Inr job))"

section \<open>Transitions\<close>

lemma loop_top_simps [simp]:
  "w_inner (loop_top st) = w_inner st"
  "stdout_ok (loop_top st) = stdout_ok st"
  "stderr_ok (loop_top st) = stderr_ok st"
  "kill_ok (loop_top st) = kill_ok st"
  "child_ok (loop_top st) = child_ok st"
  "loop_err (loop_top st) = loop_err st"
  "kill_reqs (loop_top st) = kill_reqs st"
  by (simp_all add: loop_top_def)

lemma loop_top_pc:
  "w_pc (loop_top st) =
     (if w_pc st = Looping \<and> \<not> child_ok st \<and> \<not> stdout_ok st \<and> \<not> stderr_ok st then Broken
      else w_pc st)"
  by (simp add: loop_top_def)

lemma loop_top_not_Looping [simp]: "w_pc st \<noteq> Looping \<Longrightarrow> loop_top st = st"
  by (simp add: loop_top_def)

lemma loop_top_stream_ok [simp]: "stream_ok k st \<Longrightarrow> loop_top st = st"
  by (cases k) (auto simp: loop_top_def)

lemma stream_off_simps [simp]:
  "w_inner (stream_off k st) = w_inner st"
  "kill_ok (stream_off k st) = kill_ok st"
  "child_ok (stream_off k st) = child_ok st"
  "loop_err (stream_off k st) = loop_err st"
  "kill_reqs (stream_off k st) = kill_reqs st"
  "w_pc (stream_off k st) = w_pc st"
  "stdout_ok (stream_off k st) = (stdout_ok st \<and> k \<noteq> Stdout)"
  "stderr_ok (stream_off k st) = (stderr_ok st \<and> k \<noteq> Stderr)"
  by (cases k; simp)+

lemma break_err_simps [simp]:
  "w_inner (break_err err st) = w_inner st"
  "stdout_ok (break_err err st) = stdout_ok st"
  "stderr_ok (break_err err st) = stderr_ok st"
  "kill_ok (break_err err st) = kill_ok st"
  "child_ok (break_err err st) = child_ok st"
  "loop_err (break_err err st) = Some err"
  "kill_reqs (break_err err st) = kill_reqs st"
  "w_pc (break_err err st) = Broken"
  by (simp_all add: break_err_def)

lemmas record_changes = set_killed_def set_exited_def

text \<open>
  One case per way an iteration can go. Proofs use this rule and not the equations, which
  leave the simpset here.
\<close>

lemma wait_step_cases [consumes 1, case_names
    stream_end stream_err relayed lost kill_end kill_fail kill_done exited wait_err finish]:
  assumes "wait_step st e = Some (st', out)"
  obtains
    k sent where "e = StreamRecv k None sent" "w_pc st = Looping" "stream_ok k st"
      "st' = loop_top (stream_off k st)" "out = []"
  | k err sent where "e = StreamRecv k (Some (Inl err)) sent" "w_pc st = Looping"
      "stream_ok k st" "st' = break_err err st" "out = []"
  | k f where "e = StreamRecv k (Some (Inr f)) True" "w_pc st = Looping" "stream_ok k st"
      "st' = st" "out = [ToBcast (FrameEv f)]"
  | k f where "e = StreamRecv k (Some (Inr f)) False" "w_pc st = Looping" "stream_ok k st"
      "st' = break_err (BroadcasterDisappeared (FrameEv f)) st" "out = []"
  | res now where "e = KillRecv None res now" "w_pc st = Looping" "kill_ok st"
      "st' = loop_top (st\<lparr>kill_ok := False\<rparr>)" "out = []"
  | req err now where "e = KillRecv (Some req) (Inl err) now" "w_pc st = Looping" "kill_ok st"
      "st' = loop_top st" "out = [Reply req (Inl err)]"
  | req now where "e = KillRecv (Some req) (Inr ()) now" "w_pc st = Looping" "kill_ok st"
      "st' = loop_top ((set_killed now (req_user req) st)\<lparr>kill_reqs := kill_reqs st @ [req]\<rparr>)"
      "out = []"
  | status now where "e = ChildWait (Inr status) now" "w_pc st = Looping" "child_ok st"
      "st' = loop_top ((set_exited now status (st\<lparr>child_ok := False\<rparr>))\<lparr>kill_reqs := []\<rparr>)"
      "out = map (\<lambda>req. Reply req (Inr (ti_job (w_inner (set_exited now status st))))) (kill_reqs st)"
  | err now where "e = ChildWait (Inl err) now" "w_pc st = Looping" "child_ok st"
      "st' = break_err (WaitChild err) (st\<lparr>child_ok := False\<rparr>)" "out = []"
  | sent where "e = LastSend sent" "w_pc st = Broken" "finish sent st = (st', out)"
proof (cases e)
  case (StreamRecv k ev sent)
  with assms show thesis
    by (cases ev; cases "the ev"; cases sent)
       (auto simp: on_stream_def split: if_splits intro: that)
next
  case (KillRecv req res now)
  with assms show thesis
    by (cases req; cases res)
       (auto simp: on_kill_def Let_def set_killed_def split: if_splits intro: that)
next
  case (ChildWait res now)
  with assms show thesis
    by (cases res) (auto simp: on_child_def Let_def set_exited_def split: if_splits intro: that)
next
  case (LastSend sent)
  with assms show thesis by (auto split: if_splits intro: that)
qed

lemma set_killed_simps [simp]:
  "stdout_ok (set_killed now u st) = stdout_ok st"
  "stderr_ok (set_killed now u st) = stderr_ok st"
  "kill_ok (set_killed now u st) = kill_ok st"
  "child_ok (set_killed now u st) = child_ok st"
  "loop_err (set_killed now u st) = loop_err st"
  "kill_reqs (set_killed now u st) = kill_reqs st"
  "w_pc (set_killed now u st) = w_pc st"
  "ti_res (w_inner (set_killed now u st)) = ti_res (w_inner st)"
  "ti_kill_tx (w_inner (set_killed now u st)) = ti_kill_tx (w_inner st)"
  "ti_bcast (w_inner (set_killed now u st)) = ti_bcast (w_inner st)"
  "ti_job (w_inner (set_killed now u st)) =
     (ti_job (w_inner st))\<lparr>killed := Some \<lparr>killed_at = now, killed_user = u\<rparr>\<rparr>"
  by (simp_all add: set_killed_def)

lemma set_exited_simps [simp]:
  "stdout_ok (set_exited now es st) = stdout_ok st"
  "stderr_ok (set_exited now es st) = stderr_ok st"
  "kill_ok (set_exited now es st) = kill_ok st"
  "child_ok (set_exited now es st) = child_ok st"
  "loop_err (set_exited now es st) = loop_err st"
  "kill_reqs (set_exited now es st) = kill_reqs st"
  "w_pc (set_exited now es st) = w_pc st"
  "ti_res (w_inner (set_exited now es st)) = ti_res (w_inner st)"
  "ti_kill_tx (w_inner (set_exited now es st)) = ti_kill_tx (w_inner st)"
  "ti_bcast (w_inner (set_exited now es st)) = ti_bcast (w_inner st)"
  "ti_job (w_inner (set_exited now es st)) =
     (ti_job (w_inner st))\<lparr>ended_at := Some now, state := Exited (ExitStatus_from_std es)\<rparr>"
  by (simp_all add: set_exited_def)

declare wait_step.simps [simp del]

section \<open>What reaches the broadcaster\<close>

fun to_bcast :: "'dt wait_out \<Rightarrow> frame_event option" where
  "to_bcast (ToBcast ev) = Some ev"
| "to_bcast ev = None"

text \<open>Frames whose send succeeded, and every frame received, from both streams.\<close>

fun relayed_frame :: "'dt wait_event \<Rightarrow> frame option" where
  "relayed_frame (StreamRecv k (Some (Inr f)) True) = Some f"
| "relayed_frame ev = None"

fun received_frame :: "'dt wait_event \<Rightarrow> frame option" where
  "received_frame (StreamRecv k (Some (Inr f)) sent) = Some f"
| "received_frame ev = None"

definition final_event :: "tracker_error option \<Rightarrow> frame_event" where
  "final_event err = (case err of Some e \<Rightarrow> ErrorEv e | None \<Rightarrow> EofEv)"

text \<open>
  While the loop runs, exactly the received frames have been sent, in the order received.
  Afterwards at most one terminal event follows, and an error-free loop lost nothing.
\<close>

definition frames_inv :: "'dt wait_event list \<Rightarrow> 'dt wait_out list \<Rightarrow> 'dt wait_state \<Rightarrow> bool" where
  "frames_inv es out st \<longleftrightarrow>
     (loop_err st = None \<longrightarrow> pick relayed_frame es = pick received_frame es)
     \<and> prefix (pick relayed_frame es) (pick received_frame es)
     \<and> (w_pc st = Looping \<longrightarrow> loop_err st = None)
     \<and> (if w_pc st = Complete
        then pick to_bcast out = map FrameEv (pick relayed_frame es)
               @ (if LastSend True \<in> set es then [final_event (loop_err st)] else [])
             \<and> (\<exists>sent. LastSend sent \<in> set es)
        else pick to_bcast out = map FrameEv (pick relayed_frame es)
             \<and> (\<forall>sent. LastSend sent \<notin> set es))"

lemma frames_inv_step:
  assumes "frames_inv es out st" and "wait_step st e = Some (st', out')"
  shows "frames_inv (es @ [e]) (out @ out') st'"
  using assms(2,1)
proof (cases rule: wait_step_cases)
  case (finish sent)
  with assms(1) show ?thesis
    by (cases sent) (auto simp: frames_inv_def finish_def final_event_def split: option.splits)
qed (auto simp: frames_inv_def loop_top_pc split: if_splits)

interpretation waiter_frames: task wait_step "wait_start inner" frames_inv for inner
  by unfold_locales (simp add: frames_inv_def wait_start_def, rule frames_inv_step)

section \<open>The life of the job record\<close>

text \<open>
  Relative to the job \<open>j0\<close> the tracker was created with: identity, owner and start time
  never change (\<open>same_job\<close>); the record leaves its initial state exactly when
  \<open>child.wait()\<close> delivered a status, and then once and for all (\<open>exit_inv\<close>); \<open>killed\<close>
  names a request whose kill succeeded (\<open>killed_inv\<close>); the result is set when the task
  ends (\<open>res_inv\<close>).
\<close>

definition same_job :: "'dt job \<Rightarrow> 'dt wait_state \<Rightarrow> bool" where
  "same_job j0 st \<longleftrightarrow>
     jid (ti_job (w_inner st)) = jid j0 \<and> job_user (ti_job (w_inner st)) = job_user j0
     \<and> started_at (ti_job (w_inner st)) = started_at j0"

definition exited_with :: "'dt job \<Rightarrow> os_exit \<Rightarrow> 'dt \<Rightarrow> bool" where
  "exited_with j status now \<longleftrightarrow>
     state j = Exited (ExitStatus_from_std status) \<and> ended_at j = Some now"

definition unended :: "'dt job \<Rightarrow> 'dt job \<Rightarrow> bool" where
  "unended j0 j \<longleftrightarrow> state j = state j0 \<and> ended_at j = ended_at j0"

definition exit_inv :: "'dt job \<Rightarrow> 'dt wait_event list \<Rightarrow> 'dt wait_state \<Rightarrow> bool" where
  "exit_inv j0 es st \<longleftrightarrow>
     (if child_ok st
      then (\<forall>r now. ChildWait r now \<notin> set es) \<and> unended j0 (ti_job (w_inner st))
      else (\<exists>status now. ChildWait (Inr status) now \<in> set es
              \<and> exited_with (ti_job (w_inner st)) status now)
           \<or> (\<exists>err now. ChildWait (Inl err) now \<in> set es \<and> loop_err st = Some (WaitChild err)
              \<and> w_pc st \<noteq> Looping \<and> unended j0 (ti_job (w_inner st)))
              \<and> (\<forall>status now. ChildWait (Inr status) now \<notin> set es))"

definition killed_by :: "'dt wait_event list \<Rightarrow> 'dt job_killed \<Rightarrow> bool" where
  "killed_by es k \<longleftrightarrow>
     (\<exists>req. KillRecv (Some req) (Inr ()) (killed_at k) \<in> set es \<and> killed_user k = req_user req)"

definition killed_inv :: "'dt wait_event list \<Rightarrow> 'dt wait_state \<Rightarrow> bool" where
  "killed_inv es st \<longleftrightarrow> (\<forall>k. killed (ti_job (w_inner st)) = Some k \<longrightarrow> killed_by es k)"

definition res_inv :: "'dt wait_state \<Rightarrow> bool" where
  "res_inv st \<longleftrightarrow>
     ti_res (w_inner st) =
       (if w_pc st = Complete
        then Some (case loop_err st of Some err \<Rightarrow> Inl err | None \<Rightarrow> Inr ()) else None)"

lemma same_job_step:
  "wait_step st e = Some (st', out') \<Longrightarrow> same_job j0 st \<Longrightarrow> same_job j0 st'"
  by (cases rule: wait_step_cases)
     (auto simp: same_job_def finish_def split: option.splits)

lemma exit_inv_step:
  "wait_step st e = Some (st', out') \<Longrightarrow> exit_inv j0 es st \<Longrightarrow> exit_inv j0 (es @ [e]) st'"
  by (cases rule: wait_step_cases)
     (auto simp: exit_inv_def exited_with_def unended_def finish_def loop_top_pc
        split: option.splits if_splits)

lemma killed_by_mono: "killed_by es k \<Longrightarrow> killed_by (es @ fs) k"
  by (auto simp: killed_by_def)

lemma killed_by_last:
  "killed_by (es @ [KillRecv (Some req) (Inr ()) now]) \<lparr>killed_at = now, killed_user = req_user req\<rparr>"
  by (auto simp: killed_by_def)

lemma killed_inv_step:
  "wait_step st e = Some (st', out') \<Longrightarrow> killed_inv es st \<Longrightarrow> killed_inv (es @ [e]) st'"
  by (cases rule: wait_step_cases)
     (auto simp: killed_inv_def finish_def killed_by_mono killed_by_last split: option.splits)

lemma res_inv_step:
  "wait_step st e = Some (st', out') \<Longrightarrow> res_inv st \<Longrightarrow> res_inv st'"
  by (cases rule: wait_step_cases)
     (auto simp: res_inv_def finish_def loop_top_pc split: option.splits if_splits)

definition life_inv ::
  "'dt job \<Rightarrow> 'dt wait_event list \<Rightarrow> 'dt wait_out list \<Rightarrow> 'dt wait_state \<Rightarrow> bool" where
  "life_inv j0 es out st \<longleftrightarrow>
     same_job j0 st \<and> exit_inv j0 es st \<and> killed_inv es st \<and> res_inv st"

lemma life_inv_start:
  "life_inv (Job_started i u p t) [] [] (wait_start (JobTracker_track (Job_started i u p t) ktx btx))"
  by (simp add: life_inv_def same_job_def exit_inv_def unended_def killed_inv_def res_inv_def
        wait_start_def JobTracker_track_def)

lemma life_inv_step:
  "life_inv j0 es out st \<Longrightarrow> wait_step st e = Some (st', out') \<Longrightarrow>
   life_inv j0 (es @ [e]) (out @ out') st'"
  unfolding life_inv_def
  by (blast intro: same_job_step exit_inv_step killed_inv_step res_inv_step)

interpretation waiter_life: task wait_step "wait_start (JobTracker_track (Job_started i u p t) ktx btx)"
    "life_inv (Job_started i u p t)"
  for i u p t ktx btx
  by unfold_locales (rule life_inv_start, rule life_inv_step)

section \<open>Kill requests\<close>

fun received_req :: "'dt wait_event \<Rightarrow> kill_request option" where
  "received_req (KillRecv req res now) = req"
| "received_req ev = None"

fun answered_req :: "'dt wait_out \<Rightarrow> kill_request option" where
  "answered_req (Reply req r) = Some req"
| "answered_req ev = None"

fun dropped_req :: "'dt wait_out \<Rightarrow> kill_request option" where
  "dropped_req (DropReq req) = Some req"
| "dropped_req ev = None"

text \<open>
  Every request received is answered once, dropped once, or still held; nothing else is
  answered. A request is held only while the record says killed and not yet ended, or after
  the child's exit was seen.
\<close>

definition reqs_inv :: "'dt wait_event list \<Rightarrow> 'dt wait_out list \<Rightarrow> 'dt wait_state \<Rightarrow> bool" where
  "reqs_inv es out st \<longleftrightarrow>
     mset (pick received_req es) =
       mset (pick answered_req out) + mset (pick dropped_req out) + mset (kill_reqs st)
     \<and> (w_pc st = Complete \<longrightarrow> kill_reqs st = [])
     \<and> (kill_reqs st \<noteq> [] \<longrightarrow> killed (ti_job (w_inner st)) \<noteq> None)"

lemma reqs_inv_step:
  "reqs_inv es out st \<Longrightarrow> wait_step st e = Some (st', out') \<Longrightarrow> reqs_inv (es @ [e]) (out @ out') st'"
  by (erule wait_step_cases)
     (auto simp: reqs_inv_def finish_def loop_top_pc split: option.splits if_splits)

interpretation waiter_reqs: task wait_step "wait_start inner" reqs_inv for inner
  by unfold_locales (simp add: reqs_inv_def wait_start_def, rule reqs_inv_step)

text \<open>What a positive answer says.\<close>

definition kill_answer :: "'dt job \<Rightarrow> 'dt job \<Rightarrow> bool" where
  "kill_answer j0 j \<longleftrightarrow>
     jid j = jid j0 \<and> job_user j = job_user j0 \<and> is_exited (state j)
     \<and> ended_at j \<noteq> None \<and> killed j \<noteq> None"

definition answers_inv :: "'dt job \<Rightarrow> 'dt wait_event list \<Rightarrow> 'dt wait_out list \<Rightarrow> 'dt wait_state \<Rightarrow> bool" where
  "answers_inv j0 es out st \<longleftrightarrow>
     same_job j0 st
     \<and> (kill_reqs st \<noteq> [] \<longrightarrow> killed (ti_job (w_inner st)) \<noteq> None)
     \<and> (\<forall>req j. Reply req (Inr j) \<in> set out \<longrightarrow> kill_answer j0 j)"

lemma answers_inv_step:
  assumes inv: "answers_inv j0 es out st" and step: "wait_step st e = Some (st', out')"
  shows "answers_inv j0 (es @ [e]) (out @ out') st'"
proof -
  from inv step have "same_job j0 st'" by (auto simp: answers_inv_def intro: same_job_step)
  with step inv show ?thesis
    by (cases rule: wait_step_cases)
       (auto simp: answers_inv_def finish_def same_job_def kill_answer_def split: option.splits)
qed

interpretation waiter_answers: task wait_step "wait_start (JobTracker_track j0 ktx btx)" "answers_inv j0"
  for j0 ktx btx
  by unfold_locales
     (simp add: answers_inv_def same_job_def wait_start_def JobTracker_track_def,
      rule answers_inv_step)

section \<open>Leaving the loop\<close>

text \<open>
  \<open>tokio::select!\<close> panics when every branch is disabled. The test at the top of the loop
  rules that out: a branch other than the kill channel is enabled whenever the loop selects.
\<close>

definition select_inv :: "'dt wait_event list \<Rightarrow> 'dt wait_out list \<Rightarrow> 'dt wait_state \<Rightarrow> bool" where
  "select_inv es out st \<longleftrightarrow>
     (w_pc st = Looping \<longrightarrow> child_ok st \<or> stdout_ok st \<or> stderr_ok st)
     \<and> (w_pc st \<noteq> Looping \<and> loop_err st = None \<longrightarrow>
          \<not> child_ok st \<and> \<not> stdout_ok st \<and> \<not> stderr_ok st)"

lemma select_inv_step:
  "select_inv es out st \<Longrightarrow> wait_step st e = Some (st', out') \<Longrightarrow>
   select_inv (es @ [e]) (out @ out') st'"
  by (erule wait_step_cases)
     (auto simp: select_inv_def finish_def loop_top_pc split: option.splits if_splits)

interpretation waiter_select: task wait_step "wait_start inner" select_inv for inner
  by unfold_locales (simp add: select_inv_def wait_start_def, rule select_inv_step)

text \<open>
  A stream is disabled by the end of its channel and nothing else, and a loop without an error has
  received none.
\<close>

definition streams_inv :: "'dt wait_event list \<Rightarrow> 'dt wait_out list \<Rightarrow> 'dt wait_state \<Rightarrow> bool" where
  "streams_inv es out st \<longleftrightarrow>
     (\<not> stdout_ok st \<longleftrightarrow> (\<exists>sent. StreamRecv Stdout None sent \<in> set es))
     \<and> (\<not> stderr_ok st \<longleftrightarrow> (\<exists>sent. StreamRecv Stderr None sent \<in> set es))
     \<and> (loop_err st = None \<longrightarrow> (\<forall>k err sent. StreamRecv k (Some (Inl err)) sent \<notin> set es))"

lemma streams_inv_step:
  "streams_inv es out st \<Longrightarrow> wait_step st e = Some (st', out') \<Longrightarrow>
   streams_inv (es @ [e]) (out @ out') st'"
  by (erule wait_step_cases)
     (auto simp: streams_inv_def finish_def split: option.splits if_splits)

interpretation waiter_streams: task wait_step "wait_start inner" streams_inv for inner
  by unfold_locales (simp add: streams_inv_def wait_start_def, rule streams_inv_step)

text \<open>
  The events that break out of the loop: an error from a stream, a frame that the broadcaster no
  longer takes, and an error from waiting for the child.
\<close>

fun breaking_error :: "'dt wait_event \<Rightarrow> tracker_error option" where
  "breaking_error (StreamRecv k (Some (Inl err)) sent) = Some err"
| "breaking_error (StreamRecv k (Some (Inr f)) sent) =
     (if sent then None else Some (BroadcasterDisappeared (FrameEv f)))"
| "breaking_error (StreamRecv k None sent) = None"
| "breaking_error (ChildWait (Inl err) now) = Some (WaitChild err)"
| "breaking_error (ChildWait (Inr status) now) = None"
| "breaking_error (KillRecv req res now) = None"
| "breaking_error (LastSend sent) = None"

definition errors_inv :: "'dt wait_event list \<Rightarrow> 'dt wait_out list \<Rightarrow> 'dt wait_state \<Rightarrow> bool" where
  "errors_inv es out st \<longleftrightarrow>
     pick breaking_error es = (case loop_err st of None \<Rightarrow> [] | Some err \<Rightarrow> [err])
     \<and> (w_pc st = Looping \<longrightarrow> loop_err st = None) \<and> res_inv st"

lemma errors_inv_step:
  assumes "errors_inv es out st" and step: "wait_step st e = Some (st', out')"
  shows "errors_inv (es @ [e]) (out @ out') st'"
proof -
  from assms have "res_inv st'" by (auto simp: errors_inv_def intro: res_inv_step)
  with step assms(1) show ?thesis
    by (cases rule: wait_step_cases)
       (auto simp: errors_inv_def finish_def loop_top_pc split: option.splits if_splits)
qed

interpretation waiter_errors: task wait_step "wait_start (JobTracker_track job ktx btx)" errors_inv
  for job ktx btx
  by unfold_locales
     (simp add: errors_inv_def res_inv_def wait_start_def JobTracker_track_def, rule errors_inv_step)

lemma JobTracker_wait_errors:
  "JobTracker_wait (JobTracker_track job ktx btx) es = Some (st, out) \<Longrightarrow> errors_inv es out st"
  unfolding JobTracker_wait_def by (rule waiter_errors.run_inv)

lemma JobTracker_wait_invs:
  assumes "JobTracker_wait inner es = Some (st, out)"
  shows "frames_inv es out st" and "reqs_inv es out st" and "select_inv es out st"
    and "streams_inv es out st"
  using assms waiter_frames.run_inv waiter_reqs.run_inv waiter_select.run_inv waiter_streams.run_inv
  unfolding JobTracker_wait_def by blast+

lemma JobTracker_wait_life:
  "JobTracker_wait (JobTracker_track (Job_started i u p t) ktx btx) es = Some (st, out) \<Longrightarrow>
   life_inv (Job_started i u p t) es out st"
  unfolding JobTracker_wait_def by (rule waiter_life.run_inv)

lemma JobTracker_wait_answers:
  "JobTracker_wait (JobTracker_track j0 ktx btx) es = Some (st, out) \<Longrightarrow>
   answers_inv j0 es out st"
  unfolding JobTracker_wait_def by (rule waiter_answers.run_inv)

section \<open>The task keeps a sender of its own kill channel alive\<close>

text \<open>
  \<open>wait\<close> takes \<open>self\<close>, whose inner state holds \<open>kill_tx\<close>.
\<close>

definition wait_holds :: "'dt wait_state \<Rightarrow> bool" where
  "wait_holds st \<longleftrightarrow> w_pc st \<noteq> Complete"

fun wait_closes :: "'dt wait_event \<Rightarrow> bool" where
  "wait_closes (KillRecv req res now) \<longleftrightarrow> req = None"
| "wait_closes e \<longleftrightarrow> False"

interpretation kill_sender: self_held wait_step wait_closes wait_holds
  by unfold_locales (erule wait_step_cases; simp add: wait_holds_def)

definition kill_ok_inv :: "'dt wait_event list \<Rightarrow> 'dt wait_out list \<Rightarrow> 'dt wait_state \<Rightarrow> bool" where
  "kill_ok_inv es out st \<longleftrightarrow> (list_all (\<lambda>e. \<not> wait_closes e) es \<longrightarrow> kill_ok st)"

lemma kill_ok_inv_step:
  "wait_step st e = Some (st', out') \<Longrightarrow> kill_ok_inv es out st \<Longrightarrow>
   kill_ok_inv (es @ [e]) (out @ out') st'"
  by (cases rule: wait_step_cases) (auto simp: kill_ok_inv_def finish_def split: option.splits)

interpretation waiter_kill_ok: task wait_step "wait_start inner" kill_ok_inv for inner
  by unfold_locales (simp add: kill_ok_inv_def wait_start_def, rule kill_ok_inv_step)

section \<open>After the loop\<close>

lemma after_loop_step:
  "wait_step st e = Some (st', out) \<Longrightarrow> w_pc st \<noteq> Looping \<Longrightarrow>
   w_pc st' = Complete \<and> w_pc st = Broken \<and> ti_job (w_inner st') = ti_job (w_inner st)
   \<and> child_ok st' = child_ok st \<and> loop_err st' = loop_err st"
  by (cases rule: wait_step_cases) (auto simp: finish_def split: option.splits)

lemma after_loop_run:
  "run wait_step st es = Some (st', out) \<Longrightarrow> w_pc st \<noteq> Looping \<Longrightarrow>
   ti_job (w_inner st') = ti_job (w_inner st) \<and> w_pc st' \<noteq> Looping \<and> loop_err st' = loop_err st"
proof (induction es arbitrary: st out)
  case Nil
  then show ?case by simp
next
  case (Cons e es)
  from Cons.prems(1) obtain st1 out1 out2 where st1: "wait_step st e = Some (st1, out1)"
    and rest: "run wait_step st1 es = Some (st', out2)" by (rule run_ConsE)
  from after_loop_step [OF st1 Cons.prems(2)] have "w_pc st1 \<noteq> Looping"
    and "ti_job (w_inner st1) = ti_job (w_inner st)" and "loop_err st1 = loop_err st" by simp_all
  with Cons.IH [OF rest] show ?case by simp
qed

lemma finish_facts:
  "finish sent st = (st', out) \<Longrightarrow> w_pc st' = Complete
   \<and> ti_res (w_inner st') = Some (case loop_err st of Some err \<Rightarrow> Inl err | None \<Rightarrow> Inr ())"
  by (auto simp: finish_def split: option.splits)

lemma last_send_step: "w_pc st = Broken \<Longrightarrow> wait_step st (LastSend sent) = Some (finish sent st)"
  by (simp add: wait_step.simps)

lemma child_branch:
  assumes "JobTracker_wait (JobTracker_track (Job_started i u p t) ktx btx) es = Some (st, out)"
  shows "child_ok st \<longleftrightarrow> (\<forall>r now. ChildWait r now \<notin> set es)"
  using JobTracker_wait_life [OF assms]
  by (auto simp: life_inv_def exit_inv_def split: if_splits)

section \<open>Properties\<close>

text \<open>A run in which the job is killed while its output is read.\<close>

definition sample_req :: kill_request where
  "sample_req = \<lparr>req_user = \<lparr>user_id = ''a''\<rparr>, req_tx = 1\<rparr>"

definition sample_wait :: "nat wait_event list" where
  "sample_wait =
     [StreamRecv Stdout (Some (Inr (Frame_new Stdout [104, 105]))) True,
      KillRecv (Some sample_req) (Inr ()) 5, ChildWait (Inr (OsSignal 9)) 6,
      StreamRecv Stdout None False, StreamRecv Stderr None False, LastSend True]"

definition sample_started :: "nat job" where
  "sample_started = Job_started (JobId ''j'') \<lparr>user_id = ''a''\<rparr> (Pid 42) 0"

definition sample_killed :: "nat job" where
  "sample_killed = sample_started\<lparr>killed := Some \<lparr>killed_at = 5, killed_user = \<lparr>user_id = ''a''\<rparr>\<rparr>,
     ended_at := Some 6, state := Exited \<lparr>code = None\<rparr>\<rparr>"

definition sample_final :: "nat wait_state" where
  "sample_final =
     \<lparr>w_inner = \<lparr>ti_job = sample_killed, ti_res = Some (Inr ()), ti_kill_tx = 0, ti_bcast = 0\<rparr>,
      stdout_ok = False, stderr_ok = False, kill_ok = True, child_ok = False, loop_err = None,
      kill_reqs = [], w_pc = Complete\<rparr>"

definition sample_effects :: "nat wait_out list" where
  "sample_effects =
     [ToBcast (FrameEv (Frame_new Stdout [104, 105])), Reply sample_req (Inr sample_killed),
      ToBcast EofEv]"

lemma sample_wait_run:
  "JobTracker_wait (JobTracker_track (Job_started (JobId ''j'') \<lparr>user_id = ''a''\<rparr> (Pid 42) 0) 0 0) sample_wait
     = Some (sample_final, sample_effects)"
  by (simp add: sample_wait_def JobTracker_wait_def wait_step.simps wait_start_def JobTracker_track_def
        on_stream_def on_kill_def on_child_def set_killed_def set_exited_def loop_top_def finish_def
        sample_final_def sample_effects_def sample_killed_def sample_started_def sample_req_def Job_started_def
        ExitStatus_from_std_def Let_def)

text \<open>
  C16: what \<open>wait\<close> puts into the broadcaster's channel are the frames it received from the two
  streams, in the order received, followed by at most one terminal event, when it returns. A
  clean end of file is sent only after both streams have ended, no frame was lost and the
  exit of the child was recorded.
\<close>

theorem wait_relays_frames_in_order:
  assumes run: "JobTracker_wait inner es = Some (st, out)"
  shows "\<exists>tail. pick to_bcast out = map FrameEv (pick relayed_frame es) @ tail
       \<and> prefix (pick relayed_frame es) (pick received_frame es)
       \<and> (tail = [] \<or> w_pc st = Complete \<and> tail = [final_event (loop_err st)])
       \<and> (tail = [EofEv] \<longrightarrow> pick relayed_frame es = pick received_frame es \<and> \<not> child_ok st
            \<and> (\<forall>k. \<exists>sent. StreamRecv k None sent \<in> set es))"
proof -
  let ?tail = "if w_pc st = Complete \<and> LastSend True \<in> set es then [final_event (loop_err st)] else []"
  note invs = JobTracker_wait_invs [OF run]
  from invs(1) have out: "pick to_bcast out = map FrameEv (pick relayed_frame es) @ ?tail"
    and pre: "prefix (pick relayed_frame es) (pick received_frame es)"
    by (auto simp: frames_inv_def split: if_splits)
  have "pick relayed_frame es = pick received_frame es \<and> \<not> child_ok st
      \<and> (\<forall>k. \<exists>sent. StreamRecv k None sent \<in> set es)" if "?tail = [EofEv]"
  proof -
    from that have pc: "w_pc st = Complete" and ok: "loop_err st = None"
      by (auto simp: final_event_def split: if_splits option.splits)
    with invs(3) have off: "\<not> child_ok st \<and> \<not> stdout_ok st \<and> \<not> stderr_ok st"
      by (simp add: select_inv_def)
    with invs(4) have "\<exists>sent. StreamRecv k None sent \<in> set es" for k
      by (cases k) (auto simp: streams_inv_def)
    with off ok invs(1) show ?thesis by (simp add: frames_inv_def)
  qed
  with out pre show ?thesis by (intro exI [of _ ?tail]) auto
qed

lemma wait_relays_frames_in_order_witness:
  "\<exists>tail. [FrameEv (Frame_new Stdout [104, 105]), EofEv]
       = map FrameEv (pick relayed_frame sample_wait) @ tail"
  using wait_relays_frames_in_order [OF sample_wait_run] by (auto simp: sample_effects_def)

text \<open>
  C15: the life of a job's record. Its identifier, owner and start never change. It is
  \<open>Running\<close> with the original process id and no end until \<open>child.wait()\<close> delivers a status;
  from then on it has exactly that status and the time of that moment. \<open>killed\<close> is set only
  by a request whose kill succeeded, and names its user and time.
\<close>

theorem job_record_life:
  assumes run: "JobTracker_wait (JobTracker_track (Job_started i u p t) ktx btx) es = Some (st, out)"
  shows "let j = ti_job (w_inner st) in
      jid j = i \<and> job_user j = u \<and> started_at j = t
    \<and> (if \<exists>status now. ChildWait (Inr status) now \<in> set es
       then \<exists>status now. ChildWait (Inr status) now \<in> set es
              \<and> state j = Exited (ExitStatus_from_std status) \<and> ended_at j = Some now
       else state j = Running p \<and> ended_at j = None)
    \<and> (\<forall>k. killed j = Some k \<longrightarrow>
         (\<exists>req. KillRecv (Some req) (Inr ()) (killed_at k) \<in> set es \<and> killed_user k = req_user req))"
proof -
  from JobTracker_wait_life [OF run] have "same_job (Job_started i u p t) st"
    and ex: "exit_inv (Job_started i u p t) es st" and kl: "killed_inv es st"
    by (simp_all add: life_inv_def)
  moreover have "\<exists>status now. ChildWait (Inr status) now \<in> set es
              \<and> state (ti_job (w_inner st)) = Exited (ExitStatus_from_std status)
              \<and> ended_at (ti_job (w_inner st)) = Some now"
    if "ChildWait (Inr status) now \<in> set es" for status now
    using ex that by (auto simp: exit_inv_def exited_with_def split: if_splits)
  moreover have "state (ti_job (w_inner st)) = Running p \<and> ended_at (ti_job (w_inner st)) = None"
    if "\<nexists>status now. ChildWait (Inr status) now \<in> set es"
    using ex that by (auto simp: exit_inv_def unended_def split: if_splits)
  ultimately show ?thesis
    by (simp add: Let_def same_job_def killed_inv_def killed_by_def) blast
qed

lemma job_record_life_witness:
  "jid sample_killed = JobId ''j'' \<and> job_user sample_killed = \<lparr>user_id = ''a''\<rparr>
   \<and> (\<exists>req. KillRecv (Some req) (Inr ()) (5 :: nat) \<in> set sample_wait \<and> \<lparr>user_id = ''a''\<rparr> = req_user req)"
proof -
  have "ti_job (w_inner sample_final) = sample_killed"
    "killed sample_killed = Some \<lparr>killed_at = 5, killed_user = \<lparr>user_id = ''a''\<rparr>\<rparr>"
    by (simp_all add: sample_final_def sample_killed_def)
  with job_record_life [OF sample_wait_run] show ?thesis by (simp add: Let_def)
qed

text \<open>
  C23: every kill request received is answered exactly once, or dropped exactly once, or still
  held by the loop; nothing else is answered. When the task has returned none is held.
\<close>

theorem kill_requests_exactly_once:
  assumes run: "JobTracker_wait inner es = Some (st, out)"
  shows "mset (pick received_req es) =
           mset (pick answered_req out) + mset (pick dropped_req out) + mset (kill_reqs st)
    \<and> (w_pc st = Complete \<longrightarrow> kill_reqs st = [])
    \<and> (kill_reqs st \<noteq> [] \<longrightarrow> killed (ti_job (w_inner st)) \<noteq> None)"
  using JobTracker_wait_invs(2) [OF run] by (simp_all add: reqs_inv_def)

lemma kill_requests_exactly_once_witness:
  "mset (pick received_req sample_wait) =
     mset (pick answered_req sample_effects) + mset (pick dropped_req sample_effects)"
  using kill_requests_exactly_once [OF sample_wait_run] by (simp add: sample_final_def)

text \<open>
  A positive answer to a kill request carries a record of this very job that is exited,
  has an end time and names who killed it.
\<close>

lemma kill_answer_is_a_dead_job:
  assumes run: "JobTracker_wait (JobTracker_track j0 ktx btx) es = Some (st, out)"
    and answer: "Reply req (Inr j) \<in> set out"
  shows "jid j = jid j0 \<and> job_user j = job_user j0 \<and> is_exited (state j)
    \<and> ended_at j \<noteq> None \<and> killed j \<noteq> None"
  using JobTracker_wait_answers [OF run] answer by (auto simp: answers_inv_def kill_answer_def)

lemma kill_answer_is_a_dead_job_witness:
  "jid sample_killed = JobId ''j'' \<and> is_exited (state sample_killed) \<and> ended_at sample_killed \<noteq> None"
  using kill_answer_is_a_dead_job [OF sample_wait_run, of sample_req sample_killed]
  by (simp add: sample_effects_def)

text \<open>
  C25: the select loop runs exactly as long as no error has come and one of the three sources
  (the two output streams and the child) is outstanding, in whatever order they end; so
  \<open>select!\<close> never finds all its branches disabled. The errors are those of a stream, of waiting
  for the child, and of a frame that the broadcaster does not take; the first is also the last.
  Once the loop is left, one more step, the last send, always ends the task, with that error or
  success as the result in the tracker, and then no step is left.
\<close>

theorem wait_ends_exactly_when:
  assumes run: "JobTracker_wait (JobTracker_track (Job_started i u p t) ktx btx) es = Some (st, out)"
  shows "(w_pc st = Looping \<longleftrightarrow> pick breaking_error es = []
      \<and> ((\<forall>sent. StreamRecv Stdout None sent \<notin> set es) \<or> (\<forall>sent. StreamRecv Stderr None sent \<notin> set es)
         \<or> (\<forall>r now. ChildWait r now \<notin> set es)))
    \<and> length (pick breaking_error es) \<le> 1
    \<and> (w_pc st = Looping \<longrightarrow> stream_ok Stdout st \<or> stream_ok Stderr st \<or> child_ok st)
    \<and> (w_pc st = Broken \<longrightarrow> (\<forall>sent. \<exists>st' out'. wait_step st (LastSend sent) = Some (st', out')
         \<and> w_pc st' = Complete
         \<and> ti_res (w_inner st') = Some (case pick breaking_error es of [] \<Rightarrow> Inr () | err # _ \<Rightarrow> Inl err)))
    \<and> (w_pc st = Complete \<longrightarrow>
         ti_res (w_inner st) = Some (case pick breaking_error es of [] \<Rightarrow> Inr () | err # _ \<Rightarrow> Inl err)
         \<and> (\<forall>e. wait_step st e = None))"
proof -
  note invs = JobTracker_wait_invs [OF run]
  from JobTracker_wait_errors [OF run] have errs: "loop_err st = None \<longleftrightarrow> pick breaking_error es = []"
    and one: "length (pick breaking_error es) \<le> 1"
    and res: "(case loop_err st of Some err \<Rightarrow> Inl err | None \<Rightarrow> Inr ())
      = (case pick breaking_error es of [] \<Rightarrow> Inr () | err # _ \<Rightarrow> Inl err)"
    and set_res: "w_pc st = Complete \<Longrightarrow>
      ti_res (w_inner st) = Some (case pick breaking_error es of [] \<Rightarrow> Inr () | err # _ \<Rightarrow> Inl err)"
    by (auto simp: errors_inv_def res_inv_def split: option.splits)
  have stdout: "stdout_ok st \<longleftrightarrow> (\<forall>sent. StreamRecv Stdout None sent \<notin> set es)"
    and stderr: "stderr_ok st \<longleftrightarrow> (\<forall>sent. StreamRecv Stderr None sent \<notin> set es)"
    using invs(4) by (auto simp: streams_inv_def)
  from invs(1) have "w_pc st = Looping \<Longrightarrow> loop_err st = None" by (simp add: frames_inv_def)
  with invs(3) have "w_pc st = Looping \<longleftrightarrow> loop_err st = None \<and> (stdout_ok st \<or> stderr_ok st \<or> child_ok st)"
    by (auto simp: select_inv_def)
  then have loop: "w_pc st = Looping \<longleftrightarrow> pick breaking_error es = []
      \<and> ((\<forall>sent. StreamRecv Stdout None sent \<notin> set es) \<or> (\<forall>sent. StreamRecv Stderr None sent \<notin> set es)
         \<or> (\<forall>r now. ChildWait r now \<notin> set es))"
    by (simp only: errs stdout stderr child_branch [OF run])
  from invs(3) have sel: "w_pc st = Looping \<longrightarrow> stream_ok Stdout st \<or> stream_ok Stderr st \<or> child_ok st"
    by (auto simp: select_inv_def)
  have last: "\<exists>st' out'. wait_step st (LastSend sent) = Some (st', out') \<and> w_pc st' = Complete
      \<and> ti_res (w_inner st') = Some (case pick breaking_error es of [] \<Rightarrow> Inr () | err # _ \<Rightarrow> Inl err)"
    if "w_pc st = Broken" for sent
    using last_send_step [OF that] finish_facts unfolding res [symmetric] by (metis prod.exhaust)
  have "wait_step st e = None" if "w_pc st = Complete" for e
  proof (rule ccontr)
    assume "wait_step st e \<noteq> None"
    then obtain st' out' where "wait_step st e = Some (st', out')" by auto
    from after_loop_step [OF this] that show False by simp
  qed
  with loop one sel last set_res show ?thesis by blast
qed

lemma wait_ends_exactly_when_witness:
  "wait_step sample_final (LastSend True) = None \<and> ti_res (w_inner sample_final) = Some (Inr ())"
proof -
  have "w_pc sample_final = Complete" and "pick breaking_error sample_wait = []"
    by (simp_all add: sample_final_def sample_wait_def)
  with wait_ends_exactly_when [OF sample_wait_run] show ?thesis by simp
qed

text \<open>
  C39: an error from an output stream, when it comes before the exit of the child has been seen,
  makes \<open>wait\<close> give up on the child: the loop is left, no later step waits for the child or takes
  a request to kill it, and the record says \<open>Running\<close>, without an end, whatever happens afterwards.
\<close>

theorem read_error_leaves_job_running:
  assumes run: "JobTracker_wait (JobTracker_track (Job_started i u p t) ktx btx) es = Some (st, out)"
    and err: "StreamRecv k (Some (Inl err)) sent \<in> set es" and alive: "\<And>r now. ChildWait r now \<notin> set es"
    and rest: "run wait_step st es' = Some (st', out')"
  shows "state (ti_job (w_inner st')) = Running p \<and> ended_at (ti_job (w_inner st')) = None
    \<and> (\<forall>r now. wait_step st' (ChildWait r now) = None)
    \<and> (\<forall>req res now. wait_step st' (KillRecv req res now) = None)
    \<and> (w_pc st' = Complete \<longrightarrow> ti_res (w_inner st') = Some (Inl err))"
proof -
  note errs = JobTracker_wait_errors [OF run]
  have "err \<in> set (pick breaking_error es)" using err by (force simp: set_pick)
  with errs have loop: "loop_err st = Some err" and "w_pc st \<noteq> Looping"
    by (auto simp: errors_inv_def split: option.splits)
  from after_loop_run [OF rest this(2)]
  have same: "ti_job (w_inner st') = ti_job (w_inner st)" and left: "w_pc st' \<noteq> Looping"
    and err': "loop_err st' = loop_err st" by blast+
  from run rest have "JobTracker_wait (JobTracker_track (Job_started i u p t) ktx btx) (es @ es') = Some (st', out @ out')"
    by (simp add: JobTracker_wait_def run_append)
  from JobTracker_wait_errors [OF this] loop err'
  have "w_pc st' = Complete \<longrightarrow> ti_res (w_inner st') = Some (Inl err)" by (simp add: errors_inv_def res_inv_def)
  with same left JobTracker_wait_life [OF run] alive show ?thesis
    by (auto simp: life_inv_def exit_inv_def unended_def wait_step.simps split: if_splits)
qed

definition sample_broken :: "nat wait_state" where
  "sample_broken =
     break_err (ReadOutput Stderr (OsError 5)) (wait_start (JobTracker_track sample_started 0 0))"

lemma sample_broken_run:
  "JobTracker_wait (JobTracker_track (Job_started (JobId ''j'') \<lparr>user_id = ''a''\<rparr> (Pid 42) 0) 0 0)
     [StreamRecv Stderr (Some (Inl (ReadOutput Stderr (OsError 5)))) True] = Some (sample_broken, [])"
  by (simp add: JobTracker_wait_def wait_step.simps on_stream_def sample_broken_def sample_started_def
        wait_start_def break_err_def loop_top_def)

lemma read_error_leaves_job_running_witness:
  "state (ti_job (w_inner (fst (finish True sample_broken)))) = Running (Pid 42)
   \<and> ended_at (ti_job (w_inner (fst (finish True sample_broken)))) = None"
proof -
  have "run wait_step sample_broken [LastSend True]
    = Some (fst (finish True sample_broken), snd (finish True sample_broken))"
    by (simp add: last_send_step sample_broken_def split: prod.splits)
  from read_error_leaves_job_running [OF sample_broken_run _ _ this] show ?thesis by force
qed

text \<open>
  The task never sees the end of its kill channel, because its own reference to the
  tracker keeps a sender alive: the branch that disables the channel is dead code, and a
  kill request can be received at every turn of the loop.
\<close>

lemma kill_channel_never_closes:
  assumes run: "JobTracker_wait inner es = Some (st, out)"
    and mpsc: "closed_only_unheld wait_step wait_closes wait_holds (wait_start inner) es"
  shows "list_all (\<lambda>e. \<not> wait_closes e) es \<and> kill_ok st
    \<and> (w_pc st = Looping \<longrightarrow> wait_step st (KillRecv (Some req) res now) \<noteq> None)"
proof -
  from kill_sender.never_closes [OF run [unfolded JobTracker_wait_def] mpsc]
  have open_all: "list_all (\<lambda>e. \<not> wait_closes e) es" .
  moreover have "kill_ok_inv es out st"
    using run unfolding JobTracker_wait_def by (rule waiter_kill_ok.run_inv)
  ultimately have "kill_ok st" by (simp add: kill_ok_inv_def)
  with open_all show ?thesis by (simp add: wait_step.simps)
qed

lemma sample_wait_open:
  "closed_only_unheld wait_step wait_closes wait_holds
     (wait_start (JobTracker_track (Job_started (JobId ''j'') \<lparr>user_id = ''a''\<rparr> (Pid 42) 0) 0 0)) sample_wait"
  by (rule closed_only_unheldI) (simp add: sample_wait_def)

lemma kill_channel_never_closes_witness:
  "list_all (\<lambda>e. \<not> wait_closes e) sample_wait \<and> kill_ok sample_final"
  using kill_channel_never_closes [OF sample_wait_run sample_wait_open, of sample_req "Inr ()" 0] by blast

end
