(* ===== verification/Broadcaster.thy ===== *)
theory Broadcaster
  imports Frames
begin

text \<open>
  \<open>FrameBroadcaster\<close> and \<open>FrameRelay::start\<close>, \<open>FrameRelay::accept\<close> of
  \<open>src/src/proc/coord.rs\<close>: the task that buffers the events of one job and hands them to the
  relays, and the request for a log stream. \<open>bcast_inv\<close> relates what each relay has been
  given to what the tracker has sent.
\<close>

section \<open>State and steps\<close>

text \<open>
  Relays are numbered in the order they are started; \<open>next_relay\<close> is the next number.
\<close>

record bcast_state =
  b_frames :: "frame_event list"
  b_relays :: "nat list"
  frame_rx_ok :: bool
  req_rx_ok :: bool
  next_relay :: nat

definition bcast_start :: bcast_state where
  "bcast_start =
     \<lparr>b_frames = [], b_relays = [], frame_rx_ok = True, req_rx_ok = True, next_relay = 0\<rparr>"

text \<open>
  \<open>FrameRecv ev acc\<close>: \<open>frame_rx.recv()\<close> returned \<open>ev\<close>, and \<open>acc r\<close> tells whether
  \<open>try_send\<close> to relay \<open>r\<close> succeeds (its channel of 1024 events is neither full nor closed).
  \<open>ReqRecv req\<close>: \<open>req_rx.recv()\<close> returned; for a request, whether the oneshot that carries
  the receiver to the client took it.
\<close>

datatype bcast_event =
    FrameRecv "frame_event option" "nat \<Rightarrow> bool"
  | ReqRecv "bool option"

text \<open>
  Effects: a relay task started with a snapshot; an event accepted by a relay; an event
  refused, with which the broadcaster forgets the relay; a relay handle dropped.
\<close>

datatype bcast_out =
    StartRelay nat "frame_event list"
  | Offered nat frame_event
  | Refused nat frame_event
  | Released nat

definition FrameRelay_start :: "nat \<Rightarrow> frame_event list \<Rightarrow> bool \<Rightarrow> nat option \<times> bcast_out list" where
  "FrameRelay_start r frames delivered =
     (if \<not> delivered then (None, []) else (Some r, [StartRelay r frames]))"

definition FrameRelay_accept :: "(nat \<Rightarrow> bool) \<Rightarrow> frame_event \<Rightarrow> nat \<Rightarrow> bool \<times> bcast_out" where
  "FrameRelay_accept acc ev r = (if acc r then (True, Offered r ev) else (False, Refused r ev))"

fun bcast_step :: "bcast_state \<Rightarrow> bcast_event \<Rightarrow> (bcast_state \<times> bcast_out list) option" where
  "bcast_step st (FrameRecv frame acc) =
     (if frame_rx_ok st then
        (case frame of
           None \<Rightarrow> Some (st\<lparr>frame_rx_ok := False, b_relays := []\<rparr>, map Released (b_relays st))
         | Some ev \<Rightarrow>
             Some (st\<lparr>b_relays := filter (\<lambda>r. fst (FrameRelay_accept acc ev r)) (b_relays st),
                      b_frames := b_frames st @ [ev]\<rparr>,
                   map (\<lambda>r. snd (FrameRelay_accept acc ev r)) (b_relays st)))
      else None)"
| "bcast_step st (ReqRecv req) =
     (if req_rx_ok st then
        (case req of
           None \<Rightarrow> Some (st\<lparr>req_rx_ok := False\<rparr>, [])
         | Some delivered \<Rightarrow>
             (case FrameRelay_start (next_relay st) (b_frames st) delivered of
                (None, out) \<Rightarrow> Some (st, out)
              | (Some r, out) \<Rightarrow>
                  if frame_rx_ok st
                  then Some (st\<lparr>b_relays := b_relays st @ [r], next_relay := Suc r\<rparr>, out)
                  else Some (st\<lparr>next_relay := Suc r\<rparr>, out @ [Released r])))
      else None)"

definition FrameBroadcaster_bcast :: "bcast_event list \<Rightarrow> (bcast_state \<times> bcast_out list) option" where
  "FrameBroadcaster_bcast es = run bcast_step bcast_start es"

text \<open>The loop is left when neither channel can deliver any more.\<close>

definition bcast_done :: "bcast_state \<Rightarrow> bool" where
  "bcast_done st \<longleftrightarrow> \<not> frame_rx_ok st \<and> \<not> req_rx_ok st"

section \<open>Asking for a log stream\<close>

datatype frame_error = BroadcasterUnavailableForLogs | TimeoutWaitingForLogRx | GetLogStream

text \<open>
  \<open>sent\<close> is the outcome of sending the request, \<open>answer\<close> of waiting one second for the
  receiver \<open>'r\<close>.
\<close>

definition FrameBroadcaster_stream :: "bool \<Rightarrow> 'r oneshot_wait \<Rightarrow> frame_error + 'r" where
  "FrameBroadcaster_stream sent answer =
     (if \<not> sent then Inl BroadcasterUnavailableForLogs
      else (case answer of
              Received rx \<Rightarrow> Inr rx
            | SenderDropped \<Rightarrow> Inl GetLogStream
            | Elapsed \<Rightarrow> Inl TimeoutWaitingForLogRx))"

section \<open>What a relay has been given\<close>

fun given_by :: "nat \<Rightarrow> bcast_out \<Rightarrow> frame_event list" where
  "given_by r (StartRelay r' frames) = (if r' = r then frames else [])"
| "given_by r (Offered r' ev) = (if r' = r then [ev] else [])"
| "given_by r (Refused r' ev) = []"
| "given_by r (Released r') = []"

definition given :: "nat \<Rightarrow> bcast_out list \<Rightarrow> frame_event list" where
  "given r out = concat (map (given_by r) out)"

definition started :: "nat \<Rightarrow> bcast_out list \<Rightarrow> bool" where
  "started r out \<longleftrightarrow> (\<exists>frames. StartRelay r frames \<in> set out)"

definition refused :: "nat \<Rightarrow> bcast_out list \<Rightarrow> bool" where
  "refused r out \<longleftrightarrow> (\<exists>ev. Refused r ev \<in> set out)"

fun source_event :: "bcast_event \<Rightarrow> frame_event option" where
  "source_event (FrameRecv frame acc) = frame"
| "source_event (ReqRecv req) = None"

text \<open>
  \<open>roster_inv\<close>: which relays the broadcaster still serves. While events can arrive, these
  are the relays started and never refused. \<open>stream_inv\<close>: a relay that was never refused
  has been given every event so far, any other one a prefix of them.
\<close>

definition roster_inv :: "bcast_out list \<Rightarrow> bcast_state \<Rightarrow> bool" where
  "roster_inv out st \<longleftrightarrow>
     distinct (b_relays st)
     \<and> (\<forall>r. started r out \<longleftrightarrow> r < next_relay st)
     \<and> (\<forall>r. refused r out \<longrightarrow> started r out)
     \<and> (if frame_rx_ok st then (\<forall>r. r \<in> set (b_relays st) \<longleftrightarrow> started r out \<and> \<not> refused r out)
        else b_relays st = [])"

definition relay_stream :: "bcast_out list \<Rightarrow> frame_event list \<Rightarrow> nat \<Rightarrow> bool" where
  "relay_stream out frames r \<longleftrightarrow>
     (if \<not> started r out then given r out = []
      else if refused r out then prefix (given r out) frames
      else given r out = frames)"

definition stream_inv :: "bcast_event list \<Rightarrow> bcast_out list \<Rightarrow> bcast_state \<Rightarrow> bool" where
  "stream_inv es out st \<longleftrightarrow>
     b_frames st = pick source_event es \<and> (\<forall>r. relay_stream out (b_frames st) r)"

definition bcast_inv :: "bcast_event list \<Rightarrow> bcast_out list \<Rightarrow> bcast_state \<Rightarrow> bool" where
  "bcast_inv es out st \<longleftrightarrow> roster_inv out st \<and> stream_inv es out st"

section \<open>Transitions\<close>

lemma given_simps [simp]:
  "given r [] = []"
  "given r (x # out) = given_by r x @ given r out"
  "given r (out @ out') = given r out @ given r out'"
  by (simp_all add: given_def)

lemma started_simps [simp]:
  "\<not> started r []"
  "started r (out @ out') \<longleftrightarrow> started r out \<or> started r out'"
  "started r (StartRelay r' fs # out) \<longleftrightarrow> r = r' \<or> started r out"
  "started r (Offered r' ev # out) \<longleftrightarrow> started r out"
  "started r (Refused r' ev # out) \<longleftrightarrow> started r out"
  "started r (Released r' # out) \<longleftrightarrow> started r out"
  "\<not> started r (map Released rs)"
  by (auto simp: started_def)

lemma refused_simps [simp]:
  "\<not> refused r []"
  "refused r (out @ out') \<longleftrightarrow> refused r out \<or> refused r out'"
  "refused r (StartRelay r' fs # out) \<longleftrightarrow> refused r out"
  "refused r (Offered r' ev # out) \<longleftrightarrow> refused r out"
  "refused r (Refused r' ev # out) \<longleftrightarrow> r = r' \<or> refused r out"
  "refused r (Released r' # out) \<longleftrightarrow> refused r out"
  "\<not> refused r (map Released rs)"
  by (auto simp: refused_def)

lemma given_released [simp]: "given r (map Released rs) = []"
  by (induction rs) auto

text \<open>Handing one event to every relay.\<close>

definition offer_all :: "(nat \<Rightarrow> bool) \<Rightarrow> frame_event \<Rightarrow> nat list \<Rightarrow> bcast_out list" where
  "offer_all acc ev rs = map (\<lambda>r. snd (FrameRelay_accept acc ev r)) rs"

lemma FrameRelay_accept_simps [simp]:
  "fst (FrameRelay_accept acc ev r) = acc r"
  "acc r \<Longrightarrow> snd (FrameRelay_accept acc ev r) = Offered r ev"
  "\<not> acc r \<Longrightarrow> snd (FrameRelay_accept acc ev r) = Refused r ev"
  by (simp_all add: FrameRelay_accept_def)

lemma started_offer_all [simp]: "\<not> started r (offer_all acc ev rs)"
  by (auto simp: offer_all_def started_def FrameRelay_accept_def split: if_splits)

lemma refused_offer_all [simp]:
  "refused r (offer_all acc ev rs) \<longleftrightarrow> r \<in> set rs \<and> \<not> acc r"
  by (auto simp: offer_all_def refused_def FrameRelay_accept_def image_iff split: if_splits)

lemma given_offer_all [simp]:
  "distinct rs \<Longrightarrow> given r (offer_all acc ev rs) = (if r \<in> set rs \<and> acc r then [ev] else [])"
  by (induction rs) (auto simp: offer_all_def FrameRelay_accept_def)

lemma bcast_step_cases [consumes 1, case_names
    source_end source reqs_end undelivered tracked untracked]:
  assumes "bcast_step st e = Some (st', out)"
  obtains
    acc where "e = FrameRecv None acc" "frame_rx_ok st"
      "st' = st\<lparr>frame_rx_ok := False, b_relays := []\<rparr>" "out = map Released (b_relays st)"
  | ev acc where "e = FrameRecv (Some ev) acc" "frame_rx_ok st"
      "st' = st\<lparr>b_relays := filter acc (b_relays st), b_frames := b_frames st @ [ev]\<rparr>"
      "out = offer_all acc ev (b_relays st)"
  | "e = ReqRecv None" "req_rx_ok st" "st' = st\<lparr>req_rx_ok := False\<rparr>" "out = []"
  | "e = ReqRecv (Some False)" "req_rx_ok st" "st' = st" "out = []"
  | "e = ReqRecv (Some True)" "req_rx_ok st" "frame_rx_ok st"
      "st' = st\<lparr>b_relays := b_relays st @ [next_relay st], next_relay := Suc (next_relay st)\<rparr>"
      "out = [StartRelay (next_relay st) (b_frames st)]"
  | "e = ReqRecv (Some True)" "req_rx_ok st" "\<not> frame_rx_ok st"
      "st' = st\<lparr>next_relay := Suc (next_relay st)\<rparr>"
      "out = [StartRelay (next_relay st) (b_frames st), Released (next_relay st)]"
proof (cases e)
  case (FrameRecv frame acc)
  with assms show thesis
    by (cases frame) (auto simp: offer_all_def split: if_splits intro: that)
next
  case (ReqRecv req)
  with assms show thesis
    by (cases req; cases "the req") (auto simp: FrameRelay_start_def split: if_splits intro: that)
qed

declare bcast_step.simps [simp del]

section \<open>The invariant\<close>

lemma roster_inv_step:
  assumes "bcast_step st e = Some (st', out')" and "roster_inv out st"
  shows "roster_inv (out @ out') st'"
  using assms
  by (cases rule: bcast_step_cases) (auto simp: roster_inv_def less_Suc_eq)

lemma relay_stream_step:
  assumes step: "bcast_step st e = Some (st', out')" and roster: "roster_inv out st"
    and str: "relay_stream out (b_frames st) r"
  shows "relay_stream (out @ out') (b_frames st') r"
  using step
proof (cases rule: bcast_step_cases)
  case (source ev acc)
  with roster have "distinct (b_relays st)"
    and "r \<in> set (b_relays st) \<longleftrightarrow> started r out \<and> \<not> refused r out"
    by (auto simp: roster_inv_def)
  with source str show ?thesis
    by (auto simp: relay_stream_def prefix_append)
qed (use roster str in \<open>auto simp: relay_stream_def roster_inv_def\<close>)

lemma bcast_inv_step:
  assumes "bcast_inv es out st" and step: "bcast_step st e = Some (st', out')"
  shows "bcast_inv (es @ [e]) (out @ out') st'"
proof -
  from assms have roster: "roster_inv out st" and str: "stream_inv es out st"
    by (auto simp: bcast_inv_def)
  from step have "b_frames st' = b_frames st @ pick source_event [e]"
    by (cases rule: bcast_step_cases) auto
  with str have "stream_inv (es @ [e]) (out @ out') st'"
    using relay_stream_step [OF step roster] by (auto simp: stream_inv_def)
  with roster_inv_step [OF step roster] show ?thesis
    by (simp add: bcast_inv_def)
qed

interpretation broadcast: task bcast_step bcast_start bcast_inv
  by unfold_locales
     (simp add: bcast_inv_def roster_inv_def stream_inv_def relay_stream_def bcast_start_def,
      rule bcast_inv_step)

lemma FrameBroadcaster_bcast_inv:
  "FrameBroadcaster_bcast es = Some (st, out) \<Longrightarrow> bcast_inv es out st"
  unfolding FrameBroadcaster_bcast_def by (rule broadcast.run_inv)

section \<open>Snapshot and channel of a relay\<close>

text \<open>What the broadcaster puts into the channel of a relay, after its snapshot.\<close>

fun offered_by :: "nat \<Rightarrow> bcast_out \<Rightarrow> frame_event option" where
  "offered_by r (Offered r' ev) = (if r' = r then Some ev else None)"
| "offered_by r (StartRelay r' frames) = None"
| "offered_by r (Refused r' ev) = None"
| "offered_by r (Released r') = None"

definition snapshot_inv :: "bcast_event list \<Rightarrow> bcast_out list \<Rightarrow> bcast_state \<Rightarrow> bool" where
  "snapshot_inv es out st \<longleftrightarrow>
     bcast_inv es out st
     \<and> (\<forall>r fs. StartRelay r fs \<in> set out \<longrightarrow> given r out = fs @ pick (offered_by r) out)"

lemma not_given: "given r out = [] \<Longrightarrow> pick (offered_by r) out = []"
proof (induction out)
  case Nil
  then show ?case by simp
next
  case (Cons x out)
  then show ?case by (cases x) (auto split: if_splits)
qed

lemma given_no_start: "\<not> started r out \<Longrightarrow> given r out = pick (offered_by r) out"
proof (induction out)
  case Nil
  then show ?case by simp
next
  case (Cons x out)
  then show ?case by (cases x) auto
qed

lemma snapshot_inv_step:
  assumes inv: "snapshot_inv es out st" and step: "bcast_step st e = Some (st', out')"
  shows "snapshot_inv (es @ [e]) (out @ out') st'"
proof -
  from inv have b: "bcast_inv es out st"
    and snap: "\<And>r fs. StartRelay r fs \<in> set out \<Longrightarrow> given r out = fs @ pick (offered_by r) out"
    by (auto simp: snapshot_inv_def)
  have old: "given r (out @ out') = fs @ pick (offered_by r) (out @ out')"
    if r: "StartRelay r fs \<in> set out" for r fs
  proof -
    from r b have "r < next_relay st"
      by (auto simp: bcast_inv_def roster_inv_def started_def)
    with step have "\<not> started r out'" by (cases rule: bcast_step_cases) auto
    with snap [OF r] show ?thesis by (simp add: given_no_start)
  qed
  have new: "given r (out @ out') = fs @ pick (offered_by r) (out @ out')"
    if r: "StartRelay r fs \<in> set out'" for r fs
  proof -
    have no_start: "StartRelay r fs \<notin> set (offer_all acc ev rs)" for acc ev rs
      by (auto simp: offer_all_def FrameRelay_accept_def split: if_splits)
    from step have "r = next_relay st \<and> given r out' = fs \<and> pick (offered_by r) out' = []"
      by (cases rule: bcast_step_cases) (use r no_start in auto)
    then have "r = next_relay st" and r': "given r out' = fs" "pick (offered_by r) out' = []"
      by auto
    with b have "\<not> started r out" by (simp add: bcast_inv_def roster_inv_def)
    with b have "given r out = []" by (simp add: bcast_inv_def stream_inv_def relay_stream_def)
    with not_given r' show ?thesis by simp
  qed
  from bcast_inv_step [OF b step] old new show ?thesis
    unfolding snapshot_inv_def by auto
qed

interpretation broadcast_snapshot: task bcast_step bcast_start snapshot_inv
  by unfold_locales
     (simp add: snapshot_inv_def broadcast.inv_start, rule snapshot_inv_step)

lemma FrameBroadcaster_bcast_snapshot:
  "FrameBroadcaster_bcast es = Some (st, out) \<Longrightarrow> snapshot_inv es out st"
  unfolding FrameBroadcaster_bcast_def by (rule broadcast_snapshot.run_inv)

section \<open>The task keeps its own request sender alive\<close>

text \<open>
  \<open>bcast\<close> takes \<open>self\<close>, a clone of the broadcaster that holds the sender of the request
  channel; it is dropped when the task returns.
\<close>

definition bcast_holds :: "bcast_state \<Rightarrow> bool" where
  "bcast_holds st \<longleftrightarrow> \<not> bcast_done st"

definition bcast_closes :: "bcast_event \<Rightarrow> bool" where
  "bcast_closes e \<longleftrightarrow> e = ReqRecv None"

interpretation bcast_sender: self_held bcast_step bcast_closes bcast_holds
  by unfold_locales
     (erule bcast_step_cases; simp add: bcast_closes_def bcast_holds_def bcast_done_def)

section \<open>A relay that refused an event\<close>

definition cut_off :: "nat \<Rightarrow> bcast_state \<Rightarrow> bool" where
  "cut_off r st \<longleftrightarrow> r \<notin> set (b_relays st) \<and> r < next_relay st"

lemma cut_off_step:
  assumes "bcast_step st e = Some (st', out)" and "cut_off r st" and "distinct (b_relays st)"
  shows "cut_off r st' \<and> given r out = []"
  using assms by (cases rule: bcast_step_cases) (auto simp: cut_off_def)

lemma cut_off_run:
  "run bcast_step st es = Some (st', out) \<Longrightarrow> bcast_inv es0 out0 st \<Longrightarrow> cut_off r st \<Longrightarrow>
   given r out = []"
proof (induction es arbitrary: st out es0 out0)
  case Nil
  then show ?case by simp
next
  case (Cons e es)
  from Cons.prems(1) obtain st1 out1 out2 where st1: "bcast_step st e = Some (st1, out1)"
    and rest: "run bcast_step st1 es = Some (st', out2)" and out: "out = out1 @ out2"
    by (rule run_ConsE)
  from Cons.prems(2) have "distinct (b_relays st)" by (simp add: bcast_inv_def roster_inv_def)
  with cut_off_step [OF st1 Cons.prems(3)] have "cut_off r st1" and "given r out1 = []" by simp_all
  with Cons.IH [OF rest bcast_inv_step [OF Cons.prems(2) st1]] show ?case by (simp add: out)
qed

lemma refused_cut_off: "bcast_inv es out st \<Longrightarrow> refused r out \<Longrightarrow> cut_off r st"
  by (auto simp: bcast_inv_def roster_inv_def cut_off_def split: if_splits)

text \<open>A relay that was refused an event has been given less than the log.\<close>

definition short_inv :: "bcast_event list \<Rightarrow> bcast_out list \<Rightarrow> bcast_state \<Rightarrow> bool" where
  "short_inv es out st \<longleftrightarrow>
     bcast_inv es out st \<and> (\<forall>r. refused r out \<longrightarrow> length (given r out) < length (b_frames st))"

lemma short_inv_step:
  assumes inv: "short_inv es out st" and step: "bcast_step st e = Some (st', out')"
  shows "short_inv (es @ [e]) (out @ out') st'"
proof -
  from inv have b: "bcast_inv es out st" by (simp add: short_inv_def)
  then have roster: "roster_inv out st" and given_le: "length (given r out) \<le> length (b_frames st)" for r
    by (auto simp: bcast_inv_def stream_inv_def relay_stream_def dest!: spec [of _ r] prefix_length_le split: if_splits)
  from step have "length (given r (out @ out')) < length (b_frames st')" if "refused r (out @ out')" for r
  proof (cases rule: bcast_step_cases)
    case (source ev acc)
    with that inv roster given_le [of r] show ?thesis
      by (auto simp: short_inv_def roster_inv_def less_Suc_eq_le)
  qed (use that inv roster in \<open>auto simp: short_inv_def roster_inv_def\<close>)
  with bcast_inv_step [OF b step] show ?thesis by (simp add: short_inv_def)
qed

interpretation bcast_short: task bcast_step bcast_start short_inv
  by unfold_locales (simp add: short_inv_def broadcast.inv_start, rule short_inv_step)

definition reqs_open_inv :: "bcast_event list \<Rightarrow> bcast_out list \<Rightarrow> bcast_state \<Rightarrow> bool" where
  "reqs_open_inv es out st \<longleftrightarrow> (list_all (\<lambda>e. \<not> bcast_closes e) es \<longrightarrow> req_rx_ok st)"

lemma reqs_open_inv_step:
  "bcast_step st e = Some (st', out') \<Longrightarrow> reqs_open_inv es out st \<Longrightarrow>
   reqs_open_inv (es @ [e]) (out @ out') st'"
  by (cases rule: bcast_step_cases) (auto simp: reqs_open_inv_def bcast_closes_def)

interpretation bcast_reqs_open: task bcast_step bcast_start reqs_open_inv
  by unfold_locales (simp add: reqs_open_inv_def bcast_start_def, rule reqs_open_inv_step)

section \<open>Properties\<close>

text \<open>
  C20: a relay gets the whole log. What the broadcaster has given to a relay, as its snapshot
  and since, are all the events it has received so far, in order, whenever the relay was
  started; a relay that once refused an event has a prefix of them, and no relay gets
  anything else.
\<close>

theorem relay_is_given_the_whole_log:
  assumes run: "FrameBroadcaster_bcast es = Some (st, out)"
  shows "(started r out \<and> \<not> refused r out \<longrightarrow> given r out = pick source_event es)
    \<and> prefix (given r out) (pick source_event es)
    \<and> (\<forall>fs. StartRelay r fs \<in> set out \<longrightarrow> given r out = fs @ pick (offered_by r) out)"
proof -
  from FrameBroadcaster_bcast_inv [OF run] have "relay_stream out (pick source_event es) r"
    by (auto simp: bcast_inv_def stream_inv_def)
  then have "started r out \<and> \<not> refused r out \<longrightarrow> given r out = pick source_event es"
    and "prefix (given r out) (pick source_event es)"
    by (auto simp: relay_stream_def split: if_splits)
  with FrameBroadcaster_bcast_snapshot [OF run] show ?thesis
    by (simp add: snapshot_inv_def)
qed

text \<open>One relay before the first event, one in the middle, one after the end.\<close>

definition sample_bcast :: "bcast_event list" where
  "sample_bcast =
     [ReqRecv (Some True), FrameRecv (Some (FrameEv (Frame_new Stdout [7]))) (\<lambda>r. True),
      ReqRecv (Some True), FrameRecv (Some EofEv) (\<lambda>r. r = 0), FrameRecv None (\<lambda>r. True),
      ReqRecv (Some True)]"

definition sample_bcast_out :: "bcast_out list" where
  "sample_bcast_out =
     [StartRelay 0 [], Offered 0 (FrameEv (Frame_new Stdout [7])),
      StartRelay 1 [FrameEv (Frame_new Stdout [7])], Offered 0 EofEv, Refused 1 EofEv, Released 0,
      StartRelay 2 [FrameEv (Frame_new Stdout [7]), EofEv], Released 2]"

definition sample_bcast_state :: bcast_state where
  "sample_bcast_state =
     \<lparr>b_frames = [FrameEv (Frame_new Stdout [7]), EofEv], b_relays = [], frame_rx_ok = False,
      req_rx_ok = True, next_relay = 3\<rparr>"

lemma sample_bcast_run:
  "FrameBroadcaster_bcast sample_bcast = Some (sample_bcast_state, sample_bcast_out)"
  by (simp add: FrameBroadcaster_bcast_def sample_bcast_def bcast_step.simps bcast_start_def
        FrameRelay_start_def FrameRelay_accept_def sample_bcast_state_def sample_bcast_out_def)

lemma relay_is_given_the_whole_log_witness:
  "given 0 sample_bcast_out = pick source_event sample_bcast
   \<and> given 2 sample_bcast_out = pick source_event sample_bcast"
proof -
  have "started r sample_bcast_out \<and> \<not> refused r sample_bcast_out" if "r = 0 \<or> r = 2" for r
    using that by (auto simp: sample_bcast_out_def)
  with relay_is_given_the_whole_log [OF sample_bcast_run] show ?thesis by blast
qed

text \<open>
  C36: the broadcaster never returns, because it keeps a sender of its own request channel;
  so at any time, also after the job has ended, a request for the logs is served with a new
  relay that starts with every event received so far.
\<close>

theorem logs_are_served_for_ever:
  assumes run: "FrameBroadcaster_bcast es = Some (st, out)"
    and mpsc: "closed_only_unheld bcast_step bcast_closes bcast_holds bcast_start es"
  shows "\<not> bcast_done st
    \<and> (\<exists>st' out'. bcast_step st (ReqRecv (Some True)) = Some (st', out')
         \<and> StartRelay (next_relay st) (pick source_event es) \<in> set out'
         \<and> \<not> started (next_relay st) out)"
proof -
  from bcast_sender.never_closes [OF run [unfolded FrameBroadcaster_bcast_def] mpsc]
  have "list_all (\<lambda>e. \<not> bcast_closes e) es" .
  moreover have "reqs_open_inv es out st"
    using run unfolding FrameBroadcaster_bcast_def by (rule bcast_reqs_open.run_inv)
  ultimately have reqs: "req_rx_ok st" by (simp add: reqs_open_inv_def)
  then have open_loop: "\<not> bcast_done st" by (simp add: bcast_done_def)
  from FrameBroadcaster_bcast_inv [OF run] have "b_frames st = pick source_event es"
    and "\<not> started (next_relay st) out"
    by (auto simp: bcast_inv_def stream_inv_def roster_inv_def)
  with reqs open_loop show ?thesis
    by (cases "frame_rx_ok st") (simp_all add: bcast_step.simps FrameRelay_start_def)
qed

lemma sample_bcast_open: "closed_only_unheld bcast_step bcast_closes bcast_holds bcast_start sample_bcast"
  by (rule closed_only_unheldI) (simp add: sample_bcast_def bcast_closes_def)

lemma logs_are_served_for_ever_witness:
  "\<exists>st' out'. bcast_step sample_bcast_state (ReqRecv (Some True)) = Some (st', out')
      \<and> StartRelay (next_relay sample_bcast_state) (pick source_event sample_bcast) \<in> set out'
      \<and> \<not> started (next_relay sample_bcast_state) sample_bcast_out"
  by (rule conjunct2 [OF logs_are_served_for_ever [OF sample_bcast_run sample_bcast_open]])

text \<open>
  A relay that once refused an event, because its queue was full, is abandoned without a
  word: whatever happens later, nothing more is put into its channel, neither an error nor
  the end of the log unless it had it already.
\<close>

lemma refused_relay_is_abandoned:
  assumes run: "FrameBroadcaster_bcast es = Some (st, out)" and refused: "refused r out"
    and later: "run bcast_step st es' = Some (st', out')"
  shows "given r (out @ out') = given r out
    \<and> (list_ex terminal (given r (out @ out')) \<longrightarrow> list_ex terminal (given r out))"
  using cut_off_run [OF later FrameBroadcaster_bcast_inv [OF run]
      refused_cut_off [OF FrameBroadcaster_bcast_inv [OF run] refused]]
  by simp_all

definition sample_slow :: "bcast_event list" where
  "sample_slow = [ReqRecv (Some True), FrameRecv (Some (FrameEv (Frame_new Stdout [7]))) (\<lambda>r. False)]"

definition sample_slow_out :: "bcast_out list" where
  "sample_slow_out = [StartRelay 0 [], Refused 0 (FrameEv (Frame_new Stdout [7]))]"

definition sample_slow_state :: bcast_state where
  "sample_slow_state =
     \<lparr>b_frames = [FrameEv (Frame_new Stdout [7])], b_relays = [], frame_rx_ok = True,
      req_rx_ok = True, next_relay = 1\<rparr>"

lemma sample_slow_run: "FrameBroadcaster_bcast sample_slow = Some (sample_slow_state, sample_slow_out)"
  by (simp add: FrameBroadcaster_bcast_def sample_slow_def bcast_step.simps bcast_start_def
        FrameRelay_start_def FrameRelay_accept_def sample_slow_state_def sample_slow_out_def)

lemma sample_slow_later:
  "run bcast_step sample_slow_state [FrameRecv (Some EofEv) (\<lambda>r. True)]
     = Some (sample_slow_state\<lparr>b_frames := [FrameEv (Frame_new Stdout [7]), EofEv]\<rparr>, [])"
  by (simp add: sample_slow_state_def bcast_step.simps)

lemma refused_relay_sample: "\<not> list_ex terminal (given 0 (sample_slow_out @ []))"
proof -
  have "refused 0 sample_slow_out" and "\<not> list_ex terminal (given 0 sample_slow_out)"
    by (simp_all add: sample_slow_out_def)
  with refused_relay_is_abandoned [OF sample_slow_run _ sample_slow_later] show ?thesis by blast
qed

end
