(* ===== verification/Spawn.thy ===== *)
theory Spawn
  imports Types
begin

text \<open>
  \<open>src/src/proc/spawn/mod.rs\<close>: the \<open>Child\<close> trait, its tokio implementation and
  \<open>Opts::spawn\<close> on Unix. tokio's process API is a parameter: what \<open>Command::spawn\<close>
  returns. The locale \<open>child_api\<close> is the part of the trait that \<open>JobTracker::wait\<close> relies
  on before it enters its loop.
\<close>

section \<open>Errors\<close>

text \<open>
  The error of the \<open>windows\<close> crate is its HRESULT.
\<close>

type_synonym hresult = "32 word"

datatype pipe_kind = PipeStdout | PipeStderr

datatype win_error =
    CreateProcessFailed hresult
  | CreateReadPipe hresult
  | ReadFileFailed pipe_kind hresult

datatype spawn_error = SpawnFailed io_error | SpawnNoPid | SpawnWin win_error

section \<open>The interface of a child process\<close>

text \<open>
  Taking a stream of a child returns the child without it, or panics.
\<close>

locale child_api =
  fixes pid_of :: "'c \<Rightarrow> u32"
    and take_stdout :: "'c \<Rightarrow> ('c \<times> 's) rust"
    and take_stderr :: "'c \<Rightarrow> ('c \<times> 's) rust"
    and has_stdout :: "'c \<Rightarrow> bool"
    and has_stderr :: "'c \<Rightarrow> bool"
  assumes stdout_present: "has_stdout c \<Longrightarrow> \<exists>c' s. take_stdout c = Ret (c', s)"
    and stderr_present: "has_stderr c \<Longrightarrow> \<exists>c' s. take_stderr c = Ret (c', s)"
    and stdout_absent: "\<not> has_stdout c \<Longrightarrow> panics (take_stdout c)"
    and stderr_absent: "\<not> has_stderr c \<Longrightarrow> panics (take_stderr c)"
    and stdout_frame: "take_stdout c = Ret (c', s) \<Longrightarrow>
           pid_of c' = pid_of c \<and> \<not> has_stdout c' \<and> has_stderr c' = has_stderr c"
    and stderr_frame: "take_stderr c = Ret (c', s) \<Longrightarrow>
           pid_of c' = pid_of c \<and> \<not> has_stderr c' \<and> has_stdout c' = has_stdout c"

text \<open>The first two statements of \<open>JobTracker::wait\<close>: both streams are taken.\<close>

definition take_streams ::
  "('c \<Rightarrow> ('c \<times> 's) rust) \<Rightarrow> ('c \<Rightarrow> ('c \<times> 's) rust) \<Rightarrow> 'c \<Rightarrow> ('c \<times> 's \<times> 's) rust" where
  "take_streams stdout_of stderr_of child =
     rust_bind (stdout_of child) (\<lambda>(child, out).
       rust_bind (stderr_of child) (\<lambda>(child, err). Ret (child, out, err)))"

context child_api
begin

lemma take_streams_fresh:
  assumes "has_stdout c" and "has_stderr c"
  shows "\<exists>c' out err. take_streams take_stdout take_stderr c = Ret (c', out, err)
           \<and> pid_of c' = pid_of c \<and> \<not> has_stdout c' \<and> \<not> has_stderr c'"
proof -
  from stdout_present [OF assms(1)] obtain c1 out where c1: "take_stdout c = Ret (c1, out)"
    by blast
  with assms(2) have "has_stderr c1" by (auto dest: stdout_frame)
  then obtain c2 err where c2: "take_stderr c1 = Ret (c2, err)"
    using stderr_present by blast
  with c1 show ?thesis
    by (auto simp: take_streams_def dest!: stdout_frame stderr_frame)
qed

lemma take_streams_once:
  assumes "take_streams take_stdout take_stderr c = Ret (c', out, err)"
  shows "panics (take_streams take_stdout take_stderr c')"
proof -
  from assms obtain c1 where "take_stdout c = Ret (c1, out)" and "take_stderr c1 = Ret (c', err)"
    by (auto simp: take_streams_def rust_bind_Ret_iff)
  then have "\<not> has_stdout c'" by (auto dest: stdout_frame stderr_frame)
  then have "panics (take_stdout c')" by (rule stdout_absent)
  then show ?thesis by (cases "take_stdout c'") (auto simp: take_streams_def)
qed

end

section \<open>The tokio implementation\<close>

record ('h, 's) tokio_child =
  tc_child :: "'h"
  tc_pid :: u32
  tc_stdout :: "'s option"
  tc_stderr :: "'s option"

definition TokioChild_pid :: "('h, 's) tokio_child \<Rightarrow> u32" where
  "TokioChild_pid c = tc_pid c"

definition TokioChild_stdout :: "('h, 's) tokio_child \<Rightarrow> (('h, 's) tokio_child \<times> 's) rust" where
  "TokioChild_stdout c =
     rust_bind (expect ''no stdout on child'' (tc_stdout c)) (\<lambda>s. Ret (c\<lparr>tc_stdout := None\<rparr>, s))"

definition TokioChild_stderr :: "('h, 's) tokio_child \<Rightarrow> (('h, 's) tokio_child \<times> 's) rust" where
  "TokioChild_stderr c =
     rust_bind (expect ''no stderr on child'' (tc_stderr c)) (\<lambda>s. Ret (c\<lparr>tc_stderr := None\<rparr>, s))"

text \<open>\<open>wait\<close> and \<open>kill\<close> delegate to the library's child.\<close>

definition TokioChild_wait :: "('h \<Rightarrow> io_error + os_exit) \<Rightarrow> ('h, 's) tokio_child \<Rightarrow> io_error + os_exit" where
  "TokioChild_wait child_wait c = child_wait (tc_child c)"

definition TokioChild_kill :: "('h \<Rightarrow> io_error + unit) \<Rightarrow> ('h, 's) tokio_child \<Rightarrow> io_error + unit" where
  "TokioChild_kill child_kill c = child_kill (tc_child c)"

interpretation tokio: child_api TokioChild_pid TokioChild_stdout TokioChild_stderr
    "\<lambda>c. tc_stdout c \<noteq> None" "\<lambda>c. tc_stderr c \<noteq> None"
  by unfold_locales
     (auto simp: TokioChild_pid_def TokioChild_stdout_def TokioChild_stderr_def rust_bind_Ret_iff)

section \<open>Spawning\<close>

datatype limits = Limits

record 'os opts =
  opts_spec :: "'os job_spec"
  opts_limits :: "limits option"

definition Opts_new :: "'os job_spec \<Rightarrow> 'os opts" where
  "Opts_new spec = \<lparr>opts_spec = spec, opts_limits = None\<rparr>"

text \<open>
  The command handed to tokio, with every setting the code makes.
\<close>

datatype stdio = StdioNull | StdioPiped

record 'os command =
  cmd_exe :: "'os"
  cmd_args :: "'os list"
  cmd_kill_on_drop :: bool
  cmd_stdin :: stdio
  cmd_stdout :: stdio
  cmd_stderr :: stdio

text \<open>What tokio's \<open>Command::spawn\<close> returns on success.\<close>

record ('h, 's) raw_child =
  rc_handle :: "'h"
  rc_id :: "u32 option"
  rc_stdout :: "'s option"
  rc_stderr :: "'s option"

definition Opts_spawn ::
  "('os command \<Rightarrow> io_error + ('h, 's) raw_child) \<Rightarrow> 'os opts
    \<Rightarrow> (spawn_error + ('h, 's) tokio_child) rust" where
  "Opts_spawn cmd_spawn opts =
     (let cmd = \<lparr>cmd_exe = exe (opts_spec opts), cmd_args = args (opts_spec opts),
                 cmd_kill_on_drop = True, cmd_stdin = StdioNull,
                 cmd_stdout = StdioPiped, cmd_stderr = StdioPiped\<rparr>
      in case map_err SpawnFailed (cmd_spawn cmd) of
           Inl e \<Rightarrow> Ret (Inl e)
         | Inr child \<Rightarrow>
             (case ok_or SpawnNoPid (rc_id child) of
                Inl e \<Rightarrow> Ret (Inl e)
              | Inr pid \<Rightarrow>
                  rust_bind (expect ''stdout must be piped'' (rc_stdout child)) (\<lambda>out.
                  rust_bind (expect ''stderr must be piped'' (rc_stderr child)) (\<lambda>err.
                  Ret (Inr \<lparr>tc_child = rc_handle child, tc_pid = pid,
                            tc_stdout = Some out, tc_stderr = Some err\<rparr>)))))"

text \<open>
  tokio's contract: a stream configured as piped is present in the child.
\<close>

definition pipes_honoured :: "('os command \<Rightarrow> io_error + ('h, 's) raw_child) \<Rightarrow> bool" where
  "pipes_honoured cmd_spawn \<longleftrightarrow>
     (\<forall>cmd child. cmd_spawn cmd = Inr child \<longrightarrow>
        (cmd_stdout cmd = StdioPiped \<longrightarrow> rc_stdout child \<noteq> None)
        \<and> (cmd_stderr cmd = StdioPiped \<longrightarrow> rc_stderr child \<noteq> None))"

lemma Opts_spawn_cases:
  assumes "pipes_honoured cmd_spawn"
  shows "(\<exists>e. Opts_spawn cmd_spawn opts = Ret (Inl e))
     \<or> (\<exists>c. Opts_spawn cmd_spawn opts = Ret (Inr c) \<and> tc_stdout c \<noteq> None \<and> tc_stderr c \<noteq> None)"
proof -
  let ?cmd = "\<lparr>cmd_exe = exe (opts_spec opts), cmd_args = args (opts_spec opts),
                 cmd_kill_on_drop = True, cmd_stdin = StdioNull,
                 cmd_stdout = StdioPiped, cmd_stderr = StdioPiped\<rparr>"
  show ?thesis
  proof (cases "cmd_spawn ?cmd")
    case (Inl e)
    then show ?thesis by (simp add: Opts_spawn_def)
  next
    case (Inr child)
    with assms have "rc_stdout child \<noteq> None" and "rc_stderr child \<noteq> None"
      by (auto simp: pipes_honoured_def)
    with Inr show ?thesis
      by (cases "rc_id child") (auto simp: Opts_spawn_def)
  qed
qed

lemma Opts_spawn_success:
  assumes "Opts_spawn cmd_spawn opts = Ret (Inr c)"
    and "cmd = \<lparr>cmd_exe = exe (opts_spec opts), cmd_args = args (opts_spec opts),
                 cmd_kill_on_drop = True, cmd_stdin = StdioNull,
                 cmd_stdout = StdioPiped, cmd_stderr = StdioPiped\<rparr>"
  obtains raw where "cmd_spawn cmd = Inr raw" and "rc_id raw = Some (TokioChild_pid c)"
proof (cases "cmd_spawn cmd")
  case (Inl e)
  with assms show thesis by (simp add: Opts_spawn_def)
next
  case (Inr raw)
  with assms have "rc_id raw = Some (TokioChild_pid c)"
    by (cases "rc_id raw") (auto simp: Opts_spawn_def TokioChild_pid_def rust_bind_Ret_iff)
  with Inr show thesis by (rule that)
qed

section \<open>Properties\<close>

text \<open>
  Starting a job on Unix never panics when tokio honours the pipes that the command asks
  for: it fails with an error, or yields a child with both output streams, each of which
  \<open>wait\<close> can take once; asking for them again would panic. The process id is unchanged.
\<close>

lemma spawn_then_take_streams:
  assumes "pipes_honoured cmd_spawn"
  shows "(\<exists>e. Opts_spawn cmd_spawn opts = Ret (Inl e))
    \<or> (\<exists>c c' out err. Opts_spawn cmd_spawn opts = Ret (Inr c)
         \<and> take_streams TokioChild_stdout TokioChild_stderr c = Ret (c', out, err)
         \<and> TokioChild_pid c' = TokioChild_pid c
         \<and> panics (take_streams TokioChild_stdout TokioChild_stderr c'))"
  using Opts_spawn_cases [OF assms, of opts]
proof
  assume "\<exists>c. Opts_spawn cmd_spawn opts = Ret (Inr c) \<and> tc_stdout c \<noteq> None \<and> tc_stderr c \<noteq> None"
  then obtain c where c: "Opts_spawn cmd_spawn opts = Ret (Inr c)"
    and "tc_stdout c \<noteq> None" and "tc_stderr c \<noteq> None" by blast
  from tokio.take_streams_fresh [OF this(2,3)] obtain c' out err
    where taken: "take_streams TokioChild_stdout TokioChild_stderr c = Ret (c', out, err)"
      and "TokioChild_pid c' = TokioChild_pid c" by blast
  with c tokio.take_streams_once [OF taken] show ?thesis by blast
qed blast

definition sample_cmd_spawn :: "string command \<Rightarrow> io_error + (nat, nat) raw_child" where
  "sample_cmd_spawn cmd =
     (if cmd_exe cmd = ''true''
      then Inr \<lparr>rc_handle = 7, rc_id = Some 42,
                rc_stdout = (if cmd_stdout cmd = StdioPiped then Some 1 else None),
                rc_stderr = (if cmd_stderr cmd = StdioPiped then Some 2 else None)\<rparr>
      else Inl (OsError 2))"

lemma sample_pipes: "pipes_honoured sample_cmd_spawn"
  by (auto simp: pipes_honoured_def sample_cmd_spawn_def split: if_splits)

lemma spawn_then_take_streams_sample:
  "(\<exists>e. Opts_spawn sample_cmd_spawn (Opts_new (JobSpec_new id ''true'')) = Ret (Inl e))
    \<or> (\<exists>c c' out err. Opts_spawn sample_cmd_spawn (Opts_new (JobSpec_new id ''true'')) = Ret (Inr c)
         \<and> take_streams TokioChild_stdout TokioChild_stderr c = Ret (c', out, err)
         \<and> TokioChild_pid c' = TokioChild_pid c
         \<and> panics (take_streams TokioChild_stdout TokioChild_stderr c'))"
  by (rule spawn_then_take_streams [OF sample_pipes])

end
