(* ===== verification/Coordinator.thy ===== *)
theory Coordinator
  imports Tracker Broadcaster Spawn
begin

text \<open>
  \<open>MemoryCoordinator\<close> of \<open>src/src/proc/coord.rs\<close>: the table of jobs and the four
  operations \<open>spawn\<close>, \<open>logs\<close>, \<open>ps\<close>, \<open>kill\<close>. The locale \<open>coordinator\<close> is the contract
  the gRPC layer relies on. The coordinator together with the tasks of its trackers is the
  subject of \<open>JobSystem\<close> and \<open>JobTable\<close>.
\<close>

section \<open>Errors\<close>

datatype coord_error =
    JobNotFound job_id
  | NoPid job_id
  | LogsNotAvailable frame_error
  | JobNotRunning job_id
  | KillError kill_error
  | SpawnError spawn_error

definition not_found :: "job_id \<Rightarrow> coord_error" where
  "not_found i = JobNotFound i"

definition logs_unavail :: "frame_error \<Rightarrow> coord_error" where
  "logs_unavail err = LogsNotAvailable err"

definition job_not_running :: "job_id \<Rightarrow> coord_error" where
  "job_not_running i = JobNotRunning i"

section \<open>State\<close>

text \<open>
  A \<open>JobTracker\<close> is a shared reference: cloning it copies the reference. Here it is an index
  into \<open>trackers\<close>, which holds the state of every tracker ever created together with its
  task; the map from job ids holds such references.
\<close>

record 'dt memory =
  jobs :: "job_id \<rightharpoonup> nat"
  trackers :: "'dt wait_state list"

definition MemoryCoordinator_default :: "'dt memory" where
  "MemoryCoordinator_default = \<lparr>jobs = Map.empty, trackers = []\<rparr>"

definition tracker_inner_of :: "'dt memory \<Rightarrow> nat \<Rightarrow> 'dt tracker_inner" where
  "tracker_inner_of m r = w_inner (trackers m ! r)"

definition JobTracker_job :: "'dt memory \<Rightarrow> nat \<Rightarrow> 'dt job" where
  "JobTracker_job m r = ti_job (tracker_inner_of m r)"

section \<open>Operations\<close>

definition get_tracker :: "'dt memory \<Rightarrow> ctx \<Rightarrow> job_id \<Rightarrow> coord_error + (nat \<times> 'dt job)" where
  "get_tracker m c i =
     (case jobs m i of
        None \<Rightarrow> Inl (not_found i)
      | Some r \<Rightarrow>
          let job = JobTracker_job m r in
          if user_id (job_user job) \<noteq> user_id (ctx_user c) then Inl (not_found i)
          else Inr (r, job))"

text \<open>
  \<open>opts_spawn\<close> starts the child (\<open>Opts::spawn\<close>), \<open>uuid\<close> is the fresh identifier and
  \<open>now\<close> the start time. The new state is returned also when the call panics, which it does
  after the insertion.
\<close>

definition MemoryCoordinator_spawn ::
  "('os opts \<Rightarrow> (spawn_error + 'c) rust) \<Rightarrow> ('c \<Rightarrow> u32) \<Rightarrow> string \<Rightarrow> 'dt
    \<Rightarrow> 'dt memory \<Rightarrow> ctx \<Rightarrow> 'os job_spec \<Rightarrow> 'dt memory \<times> (coord_error + 'dt job) rust" where
  "MemoryCoordinator_spawn opts_spawn pid_of uuid now m c spec =
     (let i = JobId_default uuid; u = ctx_user c in
      case opts_spawn (Opts_new spec) of
        Panic msg \<Rightarrow> (m, Panic msg)
      | Ret (Inl e) \<Rightarrow> (m, Ret (Inl (SpawnError e)))
      | Ret (Inr child) \<Rightarrow>
          let job = Job_started i u (Pid (pid_of child)) now;
              r = length (trackers m);
              tracker = wait_start (JobTracker_track job r r);
              m' = \<lparr>jobs = (jobs m)(i \<mapsto> r), trackers = trackers m @ [tracker]\<rparr>
          in (m', if jobs m i \<noteq> None
                  then Panic (''job with id '' @ JobId_deref i @ '' already being tracked'')
                  else Ret (Inr job)))"

definition MemoryCoordinator_ps :: "'dt memory \<Rightarrow> ctx \<Rightarrow> job_id \<Rightarrow> coord_error + 'dt job" where
  "MemoryCoordinator_ps m c i = and_then (get_tracker m c i) (\<lambda>(r, job). Inr job)"

text \<open>
  \<open>log_send\<close> and \<open>log_answer\<close> are the outcomes at the broadcaster of the tracker.
\<close>

definition JobTracker_stream_logs ::
  "(nat \<Rightarrow> bool) \<Rightarrow> (nat \<Rightarrow> 'r oneshot_wait) \<Rightarrow> 'dt tracker_inner \<Rightarrow> frame_error + 'r" where
  "JobTracker_stream_logs log_send log_answer inner =
     (let bcast = ti_bcast inner in FrameBroadcaster_stream (log_send bcast) (log_answer bcast))"

definition MemoryCoordinator_logs ::
  "(nat \<Rightarrow> bool) \<Rightarrow> (nat \<Rightarrow> 'r oneshot_wait) \<Rightarrow> 'dt memory \<Rightarrow> ctx \<Rightarrow> job_id \<Rightarrow> coord_error + 'r" where
  "MemoryCoordinator_logs log_send log_answer m c i =
     and_then (get_tracker m c i) (\<lambda>(r, job).
       map_err logs_unavail (JobTracker_stream_logs log_send log_answer (tracker_inner_of m r)))"

definition MemoryCoordinator_kill ::
  "(nat \<Rightarrow> kill_request \<Rightarrow> bool) \<Rightarrow> (kill_request \<Rightarrow> (io_error + 'dt job) oneshot_wait) \<Rightarrow> nat
    \<Rightarrow> 'dt memory \<Rightarrow> ctx \<Rightarrow> job_id \<Rightarrow> coord_error + 'dt job" where
  "MemoryCoordinator_kill kill_send kill_reply tx m c i =
     and_then (get_tracker m c i) (\<lambda>(r, job).
       (case JobTracker_kill kill_send kill_reply (tracker_inner_of m r) c tx of
          Inr job \<Rightarrow> Inr job
        | Inl ReqSendFailed \<Rightarrow> Inl (job_not_running i)
        | Inl err \<Rightarrow> Inl (KillError err)))"

section \<open>The contract of a coordinator\<close>

text \<open>
  \<open>view\<close> is the abstract table of jobs. An operation on a job that the caller does not own
  answers exactly as for a job that does not exist.
\<close>

definition owns :: "('m \<Rightarrow> job_id \<Rightarrow> 'dt job option) \<Rightarrow> 'm \<Rightarrow> ctx \<Rightarrow> job_id \<Rightarrow> bool" where
  "owns view m c i \<longleftrightarrow> (\<exists>j. view m i = Some j \<and> user_id (job_user j) = user_id (ctx_user c))"

locale coordinator =
  fixes view :: "'m \<Rightarrow> job_id \<Rightarrow> 'dt job option"
    and ps :: "'m \<Rightarrow> ctx \<Rightarrow> job_id \<Rightarrow> coord_error + 'dt job"
    and logs :: "'m \<Rightarrow> ctx \<Rightarrow> job_id \<Rightarrow> coord_error + 'r"
    and kill :: "'m \<Rightarrow> ctx \<Rightarrow> job_id \<Rightarrow> coord_error + 'dt job"
  assumes ps_owned: "owns view m c i \<Longrightarrow> ps m c i = Inr (the (view m i))"
    and ps_denied: "\<not> owns view m c i \<Longrightarrow> ps m c i = Inl (JobNotFound i)"
    and logs_denied: "\<not> owns view m c i \<Longrightarrow> logs m c i = Inl (JobNotFound i)"
    and kill_denied: "\<not> owns view m c i \<Longrightarrow> kill m c i = Inl (JobNotFound i)"
begin

lemma ps_ok_owned: "ps m c i = Inr j \<Longrightarrow> owns view m c i \<and> view m i = Some j"
  by (cases "owns view m c i") (auto simp: ps_owned ps_denied owns_def)

end

definition job_view :: "'dt memory \<Rightarrow> job_id \<Rightarrow> 'dt job option" where
  "job_view m i = map_option (JobTracker_job m) (jobs m i)"

lemma get_tracker_owned:
  "owns job_view m c i \<Longrightarrow> \<exists>r. jobs m i = Some r \<and> get_tracker m c i = Inr (r, JobTracker_job m r)"
  by (auto simp: owns_def job_view_def get_tracker_def)

lemma get_tracker_denied: "\<not> owns job_view m c i \<Longrightarrow> get_tracker m c i = Inl (JobNotFound i)"
  by (auto simp: owns_def job_view_def get_tracker_def not_found_def Let_def split: option.splits)

lemma get_tracker_InrD:
  "get_tracker m c i = Inr (r, j) \<Longrightarrow>
   jobs m i = Some r \<and> j = JobTracker_job m r \<and> job_user j = ctx_user c"
  by (auto simp: get_tracker_def Let_def split: option.splits if_splits)

interpretation memory: coordinator job_view MemoryCoordinator_ps
    "MemoryCoordinator_logs log_send log_answer" "MemoryCoordinator_kill kill_send kill_reply tx"
  for log_send log_answer kill_send kill_reply tx
proof unfold_locales
  fix m :: "'a memory" and c i
  assume "owns job_view m c i"
  then show "MemoryCoordinator_ps m c i = Inr (the (job_view m i))"
    using get_tracker_owned by (fastforce simp: MemoryCoordinator_ps_def job_view_def)
qed (simp_all add: MemoryCoordinator_ps_def MemoryCoordinator_logs_def MemoryCoordinator_kill_def
       get_tracker_denied)

text \<open>What a successful spawn has done.\<close>

lemma spawn_success:
  assumes "MemoryCoordinator_spawn opts_spawn pid_of uuid now m c spec = (m1, res)"
    and "res = Ret (Inr job)" and "m1 = m'"
  obtains child where "opts_spawn (Opts_new spec) = Ret (Inr child)"
    and "job = Job_started (JobId uuid) (ctx_user c) (Pid (pid_of child)) now"
    and "job_view m' (JobId uuid) = Some job"
proof -
  from assms obtain child where child: "opts_spawn (Opts_new spec) = Ret (Inr child)"
    by (auto simp: MemoryCoordinator_spawn_def Let_def split: rust.splits sum.splits)
  with assms show thesis
    by (intro that [OF child])
       (auto simp: MemoryCoordinator_spawn_def Let_def JobId_default_def job_view_def JobTracker_job_def
          tracker_inner_of_def wait_start_def JobTracker_track_def split: if_splits)
qed

section \<open>Properties\<close>

text \<open>
  A caller who does not own a job gets from \<open>ps\<close>, \<open>logs\<close> and \<open>kill\<close> exactly what it gets
  for a job that does not exist, whatever the tracker and the broadcaster would answer.
\<close>

lemma stranger_sees_no_job:
  assumes "\<not> owns job_view m c i"
  shows "MemoryCoordinator_ps m c i = Inl (JobNotFound i)
    \<and> MemoryCoordinator_logs log_send log_answer m c i = Inl (JobNotFound i)
    \<and> MemoryCoordinator_kill kill_send kill_reply tx m c i = Inl (JobNotFound i)"
  using memory.ps_denied [OF assms] memory.logs_denied [OF assms] memory.kill_denied [OF assms] by blast

text \<open>A memory with one job, of the user with id a.\<close>

definition sample_job :: "nat job" where
  "sample_job = Job_started (JobId ''j'') \<lparr>user_id = ''a''\<rparr> (Pid 42) 0"

definition sample_memory :: "nat memory" where
  "sample_memory =
     \<lparr>jobs = [JobId ''j'' \<mapsto> 0], trackers = [wait_start (JobTracker_track sample_job 0 0)]\<rparr>"

definition ctx_of :: "string \<Rightarrow> ctx" where
  "ctx_of s = \<lparr>ctx_user = \<lparr>user_id = s\<rparr>\<rparr>"

lemma sample_memory_facts [simp]:
  "JobTracker_job sample_memory 0 = sample_job" "jobs sample_memory (JobId ''j'') = Some 0"
  "tracker_inner_of sample_memory 0 = JobTracker_track sample_job 0 0"
  "user_id (job_user sample_job) = ''a''" "user_id (ctx_user (ctx_of s)) = s"
  by (simp_all add: sample_memory_def JobTracker_job_def tracker_inner_of_def wait_start_def
        JobTracker_track_def sample_job_def ctx_of_def)

lemma sample_owns: "owns job_view sample_memory (ctx_of s) (JobId ''j'') \<longleftrightarrow> s = ''a''"
  by (auto simp: owns_def job_view_def)

lemma stranger_sees_no_job_witness:
  "MemoryCoordinator_ps sample_memory (ctx_of ''b'') (JobId ''j'') = Inl (JobNotFound (JobId ''j''))"
  by (rule conjunct1 [OF stranger_sees_no_job]) (simp add: sample_owns)

text \<open>
  The owner of a job gets its current record from \<open>ps\<close>. The request that \<open>kill\<close> sends
  goes to the task of that job and names the caller; the answers of the task come back
  unchanged, a task that is gone is reported as a job that is not running, and a missing
  answer is an error.
\<close>

lemma owner_calls:
  assumes job: "jobs m i = Some r"
    and owner: "user_id (job_user (JobTracker_job m r)) = user_id (ctx_user c)"
    and chan: "JobTracker_request (tracker_inner_of m r) c tx = (ch, req)"
  shows "MemoryCoordinator_ps m c i = Inr (JobTracker_job m r)
    \<and> ch = ti_kill_tx (tracker_inner_of m r) \<and> req_user req = ctx_user c \<and> req_tx req = tx
    \<and> MemoryCoordinator_kill kill_send kill_reply tx m c i =
      (if \<not> kill_send ch req then Inl (JobNotRunning i)
       else case kill_reply req of
              Received (Inr job) \<Rightarrow> Inr job
            | Received (Inl err) \<Rightarrow> Inl (KillError (Failed err))
            | SenderDropped \<Rightarrow> Inl (KillError TxDropped)
            | Elapsed \<Rightarrow> Inl (KillError ReqTimeout))"
proof -
  from job owner have found: "get_tracker m c i = Inr (r, JobTracker_job m r)"
    by (simp add: get_tracker_def)
  then have "MemoryCoordinator_ps m c i = Inr (JobTracker_job m r)"
    by (simp add: MemoryCoordinator_ps_def)
  moreover from chan have "ch = ti_kill_tx (tracker_inner_of m r) \<and> req_user req = ctx_user c \<and> req_tx req = tx"
    by (auto simp: JobTracker_request_def KillRequest_new_def)
  moreover have "MemoryCoordinator_kill kill_send kill_reply tx m c i =
      (if \<not> kill_send ch req then Inl (JobNotRunning i)
       else case kill_reply req of
              Received (Inr job) \<Rightarrow> Inr job
            | Received (Inl err) \<Rightarrow> Inl (KillError (Failed err))
            | SenderDropped \<Rightarrow> Inl (KillError TxDropped)
            | Elapsed \<Rightarrow> Inl (KillError ReqTimeout))"
    using chan
    by (auto simp: MemoryCoordinator_kill_def found JobTracker_kill_def job_not_running_def
          split: oneshot_wait.splits sum.splits)
  ultimately show ?thesis by blast
qed

lemma owner_calls_sample:
  "MemoryCoordinator_ps sample_memory (ctx_of ''a'') (JobId ''j'') = Inr sample_job"
  using owner_calls [of sample_memory "JobId ''j''" 0 "ctx_of ''a''" 9 0
      "KillRequest_new (ctx_of ''a'') 9"]
  by (simp add: JobTracker_request_def JobTracker_track_def)

text \<open>
  C34: a successful \<open>spawn\<close> registers the job it returns: its creator, and nobody else, finds
  it with \<open>ps\<close> under its identifier, running, with the process id of the child; all other
  jobs stay as they are. An identifier in use panics.
\<close>

theorem spawn_registers_the_job:
  assumes call: "MemoryCoordinator_spawn opts_spawn pid_of uuid now m c spec = (m', Ret (Inr job))"
    and refs: "\<forall>r \<in> ran (jobs m). r < length (trackers m)"
  shows "jobs m (JobId uuid) = None
    \<and> (\<exists>child. opts_spawn (Opts_new spec) = Ret (Inr child)
         \<and> job = Job_started (JobId uuid) (ctx_user c) (Pid (pid_of child)) now)
    \<and> MemoryCoordinator_ps m' c (JobId uuid) = Inr job
    \<and> (\<forall>c'. ctx_user c' \<noteq> ctx_user c \<longrightarrow>
         MemoryCoordinator_ps m' c' (JobId uuid) = Inl (JobNotFound (JobId uuid)))
    \<and> (\<forall>i. i \<noteq> JobId uuid \<longrightarrow> job_view m' i = job_view m i)"
proof -
  from call obtain child where child: "opts_spawn (Opts_new spec) = Ret (Inr child)"
    by (auto simp: MemoryCoordinator_spawn_def Let_def split: rust.splits sum.splits)
  let ?r = "length (trackers m)"
  let ?job = "Job_started (JobId uuid) (ctx_user c) (Pid (pid_of child)) now"
  from call child have fresh: "jobs m (JobId uuid) = None"
    by (simp add: MemoryCoordinator_spawn_def Let_def JobId_default_def split: if_splits)
  from call child fresh have job: "job = ?job"
    and m': "m' = \<lparr>jobs = (jobs m)(JobId uuid \<mapsto> ?r),
                trackers = trackers m @ [wait_start (JobTracker_track ?job ?r ?r)]\<rparr>"
    by (auto simp: MemoryCoordinator_spawn_def Let_def JobId_default_def)
  have new: "JobTracker_job m' ?r = ?job"
    by (simp add: m' JobTracker_job_def tracker_inner_of_def wait_start_def JobTracker_track_def)
  have found: "jobs m' (JobId uuid) = Some ?r" by (simp add: m')
  have mine: "MemoryCoordinator_ps m' c (JobId uuid) = Inr job"
    by (simp add: MemoryCoordinator_ps_def get_tracker_def found new job)
  have others: "MemoryCoordinator_ps m' c' (JobId uuid) = Inl (JobNotFound (JobId uuid))"
    if "ctx_user c' \<noteq> ctx_user c" for c'
    using that by (cases "ctx_user c"; cases "ctx_user c'")
      (simp add: MemoryCoordinator_ps_def get_tracker_def found new not_found_def)
  have "jobs m i = Some r \<Longrightarrow> r < length (trackers m)" for i r
    using refs by (auto simp: ran_def)
  then have "job_view m' i = job_view m i" if "i \<noteq> JobId uuid" for i
    using that
    by (cases "jobs m i") (simp_all add: job_view_def m' JobTracker_job_def tracker_inner_of_def nth_append)
  with fresh child job mine others show ?thesis by blast
qed

definition sample_child_spawn :: "string opts \<Rightarrow> (spawn_error + u32) rust" where
  "sample_child_spawn opts =
     (if exe (opts_spec opts) = ''true'' then Ret (Inr 43) else Ret (Inl SpawnNoPid))"

definition sample_spawned :: "nat memory \<times> (coord_error + nat job) rust" where
  "sample_spawned =
     MemoryCoordinator_spawn sample_child_spawn id ''k'' 1 sample_memory (ctx_of ''b'')
       (JobSpec_new id ''true'')"

lemma sample_spawned_ok:
  "sample_spawned = (fst sample_spawned,
     Ret (Inr (Job_started (JobId ''k'') \<lparr>user_id = ''b''\<rparr> (Pid 43) 1)))"
  by (simp add: sample_spawned_def MemoryCoordinator_spawn_def sample_child_spawn_def Opts_new_def
        JobSpec_new_def Let_def JobId_default_def sample_memory_def ctx_of_def)

lemma sample_memory_refs: "\<forall>r \<in> ran (jobs sample_memory). r < length (trackers sample_memory)"
  by (simp add: sample_memory_def)

lemma spawn_registers_the_job_witness:
  "MemoryCoordinator_ps (fst sample_spawned) (ctx_of ''b'') (JobId ''k'')
     = Inr (Job_started (JobId ''k'') \<lparr>user_id = ''b''\<rparr> (Pid 43) 1)"
  using spawn_registers_the_job [OF sample_spawned_ok [unfolded sample_spawned_def] sample_memory_refs]
  unfolding sample_spawned_def by blast

end
