(* ===== verification/JobSystem.thy ===== *)
theory JobSystem
  imports Coordinator
begin

text \<open>
  The coordinator and the tasks of its trackers as one transition system. Clients call
  \<open>spawn\<close> and \<open>kill\<close> at any time (\<open>ps\<close> and \<open>logs\<close> change nothing), each tracker's task
  takes its steps at any time. The only coupling beyond the shared records is the kill
  channel: a task receives only requests that \<open>kill\<close> has sent to it. \<open>system_inv\<close> holds
  in every reachable state; it says that every record a client can see results from a run
  of \<open>JobTracker::wait\<close> whose kill requests all came from the owner.
\<close>

section \<open>Steps\<close>

record 'dt system =
  mem :: "'dt memory"
  kill_log :: "(nat \<times> kill_request) list"

definition system_start :: "'dt system" where
  "system_start = \<lparr>mem = MemoryCoordinator_default, kill_log = []\<rparr>"

definition update_tracker :: "nat \<Rightarrow> 'dt wait_state \<Rightarrow> 'dt memory \<Rightarrow> 'dt memory" where
  "update_tracker r st m = m\<lparr>trackers := (trackers m)[r := st]\<rparr>"

inductive system_step ::
  "('os opts \<Rightarrow> (spawn_error + 'c) rust) \<Rightarrow> ('c \<Rightarrow> u32) \<Rightarrow> 'dt system \<Rightarrow> 'dt system \<Rightarrow> bool"
  for opts_spawn :: "'os opts \<Rightarrow> (spawn_error + 'c) rust" and pid_of :: "'c \<Rightarrow> u32" where
  call_spawn: "MemoryCoordinator_spawn opts_spawn pid_of uuid now (mem s) c spec = (m', res) \<Longrightarrow>
     system_step opts_spawn pid_of s (s\<lparr>mem := m'\<rparr>)"
| call_kill: "get_tracker (mem s) c i = Inr (r, job) \<Longrightarrow>
     system_step opts_spawn pid_of s
       (s\<lparr>kill_log := kill_log s @ [JobTracker_request (tracker_inner_of (mem s) r) c tx]\<rparr>)"
| task_step: "r < length (trackers (mem s)) \<Longrightarrow>
     wait_step (trackers (mem s) ! r) e = Some (st', out) \<Longrightarrow>
     (\<And>req. received_req e = Some req \<Longrightarrow>
        (ti_kill_tx (tracker_inner_of (mem s) r), req) \<in> set (kill_log s)) \<Longrightarrow>
     system_step opts_spawn pid_of s (s\<lparr>mem := update_tracker r st' (mem s)\<rparr>)"

inductive system_reachable ::
  "('os opts \<Rightarrow> (spawn_error + 'c) rust) \<Rightarrow> ('c \<Rightarrow> u32) \<Rightarrow> 'dt system \<Rightarrow> bool"
  for opts_spawn :: "'os opts \<Rightarrow> (spawn_error + 'c) rust" and pid_of :: "'c \<Rightarrow> u32" where
  at_start: "system_reachable opts_spawn pid_of system_start"
| by_step: "system_reachable opts_spawn pid_of s \<Longrightarrow> system_step opts_spawn pid_of s s' \<Longrightarrow>
     system_reachable opts_spawn pid_of s'"

section \<open>The invariant\<close>

text \<open>
  \<open>tracker_of u st r\<close>: the state \<open>st\<close> of tracker \<open>r\<close> is the result of a run of \<open>wait\<close> for
  a job of user \<open>u\<close>, in which every kill request came from \<open>u\<close>.
\<close>

definition tracker_of :: "job_id \<Rightarrow> user \<Rightarrow> nat \<Rightarrow> 'dt wait_state \<Rightarrow> bool" where
  "tracker_of i u r st \<longleftrightarrow>
     (\<exists>p t es out. JobTracker_wait (JobTracker_track (Job_started i u p t) r r) es = Some (st, out)
        \<and> (\<forall>req. req \<in> set (pick received_req es) \<longrightarrow> req_user req = u))"

definition trackers_inv :: "'dt memory \<Rightarrow> bool" where
  "trackers_inv m \<longleftrightarrow>
     (\<forall>r. r < length (trackers m) \<longrightarrow> (\<exists>i u. tracker_of i u r (trackers m ! r)))
     \<and> (\<forall>i r. jobs m i = Some r \<longrightarrow> r < length (trackers m) \<and> jid (JobTracker_job m r) = i)"

definition system_inv :: "'dt system \<Rightarrow> bool" where
  "system_inv s \<longleftrightarrow>
     trackers_inv (mem s)
     \<and> (\<forall>r req. (r, req) \<in> set (kill_log s) \<longrightarrow>
          r < length (trackers (mem s)) \<and> req_user req = job_user (JobTracker_job (mem s) r))"

lemma wait_step_frame:
  "wait_step st e = Some (st', out) \<Longrightarrow>
   ti_kill_tx (w_inner st') = ti_kill_tx (w_inner st) \<and> ti_bcast (w_inner st') = ti_bcast (w_inner st)
   \<and> jid (ti_job (w_inner st')) = jid (ti_job (w_inner st))
   \<and> job_user (ti_job (w_inner st')) = job_user (ti_job (w_inner st))
   \<and> started_at (ti_job (w_inner st')) = started_at (ti_job (w_inner st))"
  by (erule wait_step_cases) (auto simp: finish_def split: option.splits)

text \<open>The handles of a tracker are those it was created with.\<close>

definition handles_inv :: "nat \<Rightarrow> nat \<Rightarrow> 'dt wait_event list \<Rightarrow> 'dt wait_out list \<Rightarrow> 'dt wait_state \<Rightarrow> bool" where
  "handles_inv ktx btx es out st \<longleftrightarrow> ti_kill_tx (w_inner st) = ktx \<and> ti_bcast (w_inner st) = btx"

interpretation waiter_handles: task wait_step "wait_start (JobTracker_track j0 ktx btx)" "handles_inv ktx btx"
  for j0 ktx btx
  by unfold_locales
     (auto simp: handles_inv_def wait_start_def JobTracker_track_def dest: wait_step_frame)

lemma tracker_of_props:
  assumes "tracker_of i u r st"
  shows "ti_kill_tx (w_inner st) = r" and "ti_bcast (w_inner st) = r"
    and "jid (ti_job (w_inner st)) = i" and "job_user (ti_job (w_inner st)) = u"
    and "killed (ti_job (w_inner st)) = Some k \<Longrightarrow> killed_user k = u"
proof -
  from assms obtain p t es out
    where run: "JobTracker_wait (JobTracker_track (Job_started i u p t) r r) es = Some (st, out)"
      and reqs: "\<And>req. req \<in> set (pick received_req es) \<Longrightarrow> req_user req = u"
    by (auto simp: tracker_of_def)
  from run have "handles_inv r r es out st"
    unfolding JobTracker_wait_def by (rule waiter_handles.run_inv)
  then show "ti_kill_tx (w_inner st) = r" and "ti_bcast (w_inner st) = r"
    by (simp_all add: handles_inv_def)
  from JobTracker_wait_life [OF run] show "jid (ti_job (w_inner st)) = i"
    and "job_user (ti_job (w_inner st)) = u"
    by (simp_all add: life_inv_def same_job_def)
  assume "killed (ti_job (w_inner st)) = Some k"
  with JobTracker_wait_life [OF run] have "killed_by es k"
    by (simp add: life_inv_def killed_inv_def)
  then obtain req where "KillRecv (Some req) (Inr ()) (killed_at k) \<in> set es"
    and k: "killed_user k = req_user req"
    by (auto simp: killed_by_def)
  then have "req \<in> set (pick received_req es)"
    by (force simp: set_pick)
  with k show "killed_user k = u" by (simp add: reqs)
qed

lemma tracker_of_start:
  "tracker_of i u r (wait_start (JobTracker_track (Job_started i u p t) r r))"
  unfolding tracker_of_def JobTracker_wait_def
  by (rule exI [of _ p], rule exI [of _ t], rule exI [of _ "[]"]) simp

lemma tracker_of_step:
  assumes "tracker_of i u r st" and step: "wait_step st e = Some (st', out')"
    and req: "\<And>req. received_req e = Some req \<Longrightarrow> req_user req = u"
  shows "tracker_of i u r st'"
proof -
  from assms(1) obtain p t es out
    where run: "JobTracker_wait (JobTracker_track (Job_started i u p t) r r) es = Some (st, out)"
      and reqs: "\<And>req. req \<in> set (pick received_req es) \<Longrightarrow> req_user req = u"
    by (auto simp: tracker_of_def)
  from run step have
    "JobTracker_wait (JobTracker_track (Job_started i u p t) r r) (es @ [e]) = Some (st', out @ out')"
    by (simp add: JobTracker_wait_def run_append)
  moreover have "req_user q = u" if "q \<in> set (pick received_req (es @ [e]))" for q
  proof -
    from that have "q \<in> set (pick received_req es) \<or> received_req e = Some q"
      by (auto simp: set_pick split: option.splits)
    then show ?thesis using reqs req by blast
  qed
  ultimately show ?thesis unfolding tracker_of_def by blast
qed

section \<open>Every step keeps it\<close>

lemma update_tracker_simps [simp]:
  "jobs (update_tracker r st m) = jobs m"
  "length (trackers (update_tracker r st m)) = length (trackers m)"
  "r < length (trackers m) \<Longrightarrow> trackers (update_tracker r st m) ! q = (if q = r then st else trackers m ! q)"
  by (simp_all add: update_tracker_def nth_list_update)

lemma system_inv_start: "system_inv system_start"
  by (simp add: system_inv_def trackers_inv_def system_start_def MemoryCoordinator_default_def)

text \<open>What a call of \<open>spawn\<close> does to the memory: nothing, or one more tracker.\<close>

lemma spawn_memory:
  assumes "MemoryCoordinator_spawn opts_spawn pid_of uuid now m c spec = (m', res)"
  obtains "m' = m"
  | p where "jobs m' = (jobs m)(JobId_default uuid \<mapsto> length (trackers m))"
      "trackers m' = trackers m @ [wait_start (JobTracker_track
          (Job_started (JobId_default uuid) (ctx_user c) p now) (length (trackers m)) (length (trackers m)))]"
proof (cases "opts_spawn (Opts_new spec)")
  case (Panic msg)
  with assms show thesis by (simp add: MemoryCoordinator_spawn_def that(1))
next
  case (Ret res0)
  show thesis
  proof (cases res0)
    case (Inl err)
    with Ret assms show thesis by (simp add: MemoryCoordinator_spawn_def that(1))
  next
    case (Inr child)
    with Ret assms show thesis
      by (simp only: MemoryCoordinator_spawn_def Let_def rust.case sum.case prod.inject)
         (rule that(2), (erule conjE, drule sym, simp)+)
  qed
qed

lemma system_inv_spawn:
  assumes inv: "system_inv s"
    and call: "MemoryCoordinator_spawn opts_spawn pid_of uuid now (mem s) c spec = (m', res)"
  shows "system_inv (s\<lparr>mem := m'\<rparr>)"
  using call
proof (cases rule: spawn_memory)
  case 1
  with inv show ?thesis by simp
next
  case (2 p)
  have start: "\<exists>i u. tracker_of i u (length (trackers (mem s))) (wait_start (JobTracker_track
     (Job_started (JobId_default uuid) (ctx_user c) p now) (length (trackers (mem s))) (length (trackers (mem s)))))"
    by (intro exI, rule tracker_of_start)
  have old: "r < length (trackers (mem s)) \<Longrightarrow> JobTracker_job m' r = JobTracker_job (mem s) r" for r
    by (simp add: JobTracker_job_def tracker_inner_of_def 2 nth_append)
  have new: "jid (JobTracker_job m' (length (trackers (mem s)))) = JobId_default uuid"
    by (simp add: JobTracker_job_def tracker_inner_of_def 2 wait_start_def JobTracker_track_def)
  from inv have ids: "\<And>i r. jobs (mem s) i = Some r \<Longrightarrow>
      r < length (trackers (mem s)) \<and> jid (JobTracker_job (mem s) r) = i"
    by (auto simp: system_inv_def trackers_inv_def)
  have "\<exists>i u. tracker_of i u r (trackers m' ! r)" if "r < length (trackers m')" for r
  proof (cases "r < length (trackers (mem s))")
    case True
    with inv show ?thesis by (simp add: system_inv_def trackers_inv_def 2 nth_append)
  next
    case False
    with that have "r = length (trackers (mem s))" by (simp add: 2)
    with start show ?thesis by (simp add: 2)
  qed
  moreover have "r < length (trackers m') \<and> jid (JobTracker_job m' r) = i" if "jobs m' i = Some r" for i r
  proof (cases "i = JobId_default uuid")
    case True
    with that new show ?thesis by (auto simp: 2)
  next
    case False
    with that have "jobs (mem s) i = Some r" by (simp add: 2)
    from ids [OF this] old show ?thesis by (auto simp: 2)
  qed
  ultimately have "trackers_inv m'" unfolding trackers_inv_def by blast
  moreover from inv old have "\<forall>r req. (r, req) \<in> set (kill_log s) \<longrightarrow>
      r < length (trackers m') \<and> req_user req = job_user (JobTracker_job m' r)"
    by (simp add: system_inv_def 2 less_SucI)
  ultimately show ?thesis by (simp add: system_inv_def)
qed

lemma system_inv_kill:
  assumes inv: "system_inv s" and found: "get_tracker (mem s) c i = Inr (r, job)"
  shows "system_inv (s\<lparr>kill_log := kill_log s @ [JobTracker_request (tracker_inner_of (mem s) r) c tx]\<rparr>)"
proof -
  from get_tracker_InrD [OF found] inv
  have r: "r < length (trackers (mem s))" and owner: "job_user (JobTracker_job (mem s) r) = ctx_user c"
    by (auto simp: system_inv_def trackers_inv_def)
  from inv r obtain i' u where "tracker_of i' u r (trackers (mem s) ! r)"
    by (auto simp: system_inv_def trackers_inv_def)
  from tracker_of_props(1) [OF this]
  have "JobTracker_request (tracker_inner_of (mem s) r) c tx = (r, KillRequest_new c tx)"
    by (simp add: JobTracker_request_def tracker_inner_of_def)
  with inv r owner show ?thesis
    by (auto simp: system_inv_def KillRequest_new_def)
qed

lemma system_inv_task:
  assumes inv: "system_inv s" and r: "r < length (trackers (mem s))"
    and step: "wait_step (trackers (mem s) ! r) e = Some (st', out)"
    and req: "\<And>req. received_req e = Some req \<Longrightarrow>
      (ti_kill_tx (tracker_inner_of (mem s) r), req) \<in> set (kill_log s)"
  shows "system_inv (s\<lparr>mem := update_tracker r st' (mem s)\<rparr>)"
proof -
  from inv r obtain i u where old: "tracker_of i u r (trackers (mem s) ! r)"
    by (auto simp: system_inv_def trackers_inv_def)
  have "req_user req = u" if "received_req e = Some req" for req
    using req [OF that] inv tracker_of_props(1,4) [OF old]
    by (auto simp: system_inv_def tracker_inner_of_def JobTracker_job_def)
  with tracker_of_step [OF old step] have new: "tracker_of i u r st'" by blast
  have ids: "jid (JobTracker_job (update_tracker r st' (mem s)) q) = jid (JobTracker_job (mem s) q)"
    "job_user (JobTracker_job (update_tracker r st' (mem s)) q) = job_user (JobTracker_job (mem s) q)" for q
    using wait_step_frame [OF step] r by (auto simp: JobTracker_job_def tracker_inner_of_def)
  have "trackers_inv (update_tracker r st' (mem s))"
    using inv new r ids(1) unfolding system_inv_def trackers_inv_def by auto
  with inv ids(2) show ?thesis unfolding system_inv_def by auto
qed

lemma system_inv_step:
  assumes "system_step opts_spawn pid_of s s'" and inv: "system_inv s"
  shows "system_inv s'"
  using assms(1)
proof (cases rule: system_step.cases)
  case call_spawn
  then show ?thesis using system_inv_spawn [OF inv] by simp
next
  case call_kill
  then show ?thesis using system_inv_kill [OF inv] by simp
next
  case task_step
  then show ?thesis using system_inv_task [OF inv] by simp
qed

lemma system_reachable_inv: "system_reachable opts_spawn pid_of s \<Longrightarrow> system_inv s"
  by (induction rule: system_reachable.induct) (auto intro: system_inv_start system_inv_step)

section \<open>Properties\<close>

lemma reachable_tracker:
  assumes "system_reachable opts_spawn pid_of s" and "jobs (mem s) i = Some r"
  obtains u where "r < length (trackers (mem s))" and "jid (JobTracker_job (mem s) r) = i"
    and "tracker_of i u r (trackers (mem s) ! r)"
proof -
  from system_reachable_inv [OF assms(1)] assms(2) have r: "r < length (trackers (mem s))"
    and i: "jid (JobTracker_job (mem s) r) = i"
    by (auto simp: system_inv_def trackers_inv_def)
  from system_reachable_inv [OF assms(1)] r obtain i' u where t: "tracker_of i' u r (trackers (mem s) ! r)"
    by (auto simp: system_inv_def trackers_inv_def)
  with tracker_of_props(3) [OF t] i have "i' = i" by (simp add: JobTracker_job_def tracker_inner_of_def)
  with r i t show thesis by (intro that) simp_all
qed

lemma job_view_Some: "job_view m i = Some j \<longleftrightarrow> (\<exists>r. jobs m i = Some r \<and> j = JobTracker_job m r)"
  by (auto simp: job_view_def)

lemma tracker_of_exit:
  assumes "tracker_of i u r st"
  shows "is_running (state (ti_job (w_inner st))) \<longleftrightarrow> ended_at (ti_job (w_inner st)) = None"
    and "is_exited (state (ti_job (w_inner st))) \<Longrightarrow> \<not> child_ok st"
proof -
  from assms obtain p t es out
    where run: "JobTracker_wait (JobTracker_track (Job_started i u p t) r r) es = Some (st, out)"
    by (auto simp: tracker_of_def)
  from JobTracker_wait_life [OF run] have "exit_inv (Job_started i u p t) es st"
    by (simp add: life_inv_def)
  then show "is_running (state (ti_job (w_inner st))) \<longleftrightarrow> ended_at (ti_job (w_inner st)) = None"
    and "is_exited (state (ti_job (w_inner st))) \<Longrightarrow> \<not> child_ok st"
    by (auto simp: exit_inv_def unended_def exited_with_def split: if_splits)
qed

lemma exited_step:
  "wait_step st e = Some (st', out) \<Longrightarrow> \<not> child_ok st \<Longrightarrow>
   state (ti_job (w_inner st')) = state (ti_job (w_inner st))
   \<and> ended_at (ti_job (w_inner st')) = ended_at (ti_job (w_inner st))"
  by (cases rule: wait_step_cases) (auto simp: finish_def split: option.splits)

text \<open>
  C7: only its owner kills a job. In every reachable state of the coordinator and its tasks,
  under every interleaving of calls and task steps, a job that is marked as killed was killed
  by the user who spawned it.
\<close>

theorem only_the_owner_kills:
  assumes reach: "system_reachable opts_spawn pid_of s" and job: "job_view (mem s) i = Some j"
    and dead: "killed j = Some k"
  shows "killed_user k = job_user j"
proof -
  from job obtain r where r: "jobs (mem s) i = Some r" and j: "j = JobTracker_job (mem s) r"
    by (auto simp: job_view_Some)
  from reachable_tracker [OF reach r] obtain u where t: "tracker_of i u r (trackers (mem s) ! r)"
    by blast
  from tracker_of_props(4,5) [OF t] dead show ?thesis
    by (simp add: j JobTracker_job_def tracker_inner_of_def)
qed

text \<open>User b starts the job k and kills it.\<close>

definition sample_system :: "nat \<Rightarrow> nat system" where
  "sample_system n =
     (let job = Job_started (JobId ''k'') \<lparr>user_id = ''b''\<rparr> (Pid 43) 1;
          req = KillRequest_new (ctx_of ''b'') 5;
          st = wait_start (JobTracker_track job 0 0)
      in if n = 0 then system_start
         else if n = 1 then \<lparr>mem = \<lparr>jobs = [JobId ''k'' \<mapsto> 0], trackers = [st]\<rparr>, kill_log = []\<rparr>
         else if n = 2 then \<lparr>mem = \<lparr>jobs = [JobId ''k'' \<mapsto> 0], trackers = [st]\<rparr>, kill_log = [(0, req)]\<rparr>
         else \<lparr>mem = \<lparr>jobs = [JobId ''k'' \<mapsto> 0],
                      trackers = [(set_killed 9 \<lparr>user_id = ''b''\<rparr> st)\<lparr>kill_reqs := [req]\<rparr>]\<rparr>,
                kill_log = [(0, req)]\<rparr>)"

lemma sample_system_step1: "system_step sample_child_spawn id (sample_system 0) (sample_system 1)"
proof -
  have "MemoryCoordinator_spawn sample_child_spawn id ''k'' 1 (mem (sample_system 0)) (ctx_of ''b'')
      (JobSpec_new id ''true'')
    = (mem (sample_system 1), Ret (Inr (Job_started (JobId ''k'') \<lparr>user_id = ''b''\<rparr> (Pid 43) 1)))"
    by (simp add: sample_system_def system_start_def MemoryCoordinator_default_def Let_def
          MemoryCoordinator_spawn_def sample_child_spawn_def Opts_new_def JobSpec_new_def
          JobId_default_def ctx_of_def)
  from system_step.call_spawn [OF this] show ?thesis
    by (simp add: sample_system_def system_start_def Let_def)
qed

lemma sample_system_step2: "system_step sample_child_spawn id (sample_system 1) (sample_system 2)"
proof -
  have "get_tracker (mem (sample_system 1)) (ctx_of ''b'') (JobId ''k'')
      = Inr (0, Job_started (JobId ''k'') \<lparr>user_id = ''b''\<rparr> (Pid 43) 1)"
    by (simp add: sample_system_def get_tracker_def JobTracker_job_def tracker_inner_of_def
          wait_start_def JobTracker_track_def ctx_of_def Let_def)
  from system_step.call_kill [OF this, where tx = 5] show ?thesis
    by (simp add: sample_system_def Let_def JobTracker_request_def tracker_inner_of_def
          wait_start_def JobTracker_track_def)
qed

lemma sample_system_step3: "system_step sample_child_spawn id (sample_system 2) (sample_system 3)"
proof -
  let ?req = "KillRequest_new (ctx_of ''b'') 5"
  have r: "(0 :: nat) < length (trackers (mem (sample_system 2)))"
    by (simp add: sample_system_def Let_def)
  have step: "wait_step (trackers (mem (sample_system 2)) ! 0) (KillRecv (Some ?req) (Inr ()) 9)
      = Some (trackers (mem (sample_system 3)) ! 0, [])"
    by (simp add: sample_system_def wait_step.simps wait_start_def on_kill_def set_killed_def
          loop_top_def KillRequest_new_def ctx_of_def Let_def)
  have "(ti_kill_tx (tracker_inner_of (mem (sample_system 2)) 0), req) \<in> set (kill_log (sample_system 2))"
    if "received_req (KillRecv (Some ?req) (Inr ()) (9 :: nat)) = Some req" for req
    using that by (auto simp: sample_system_def tracker_inner_of_def wait_start_def
        JobTracker_track_def Let_def)
  from system_step.task_step [OF r step this] show ?thesis
    by (simp add: sample_system_def update_tracker_def Let_def)
qed

lemma sample_system_reachable: "system_reachable sample_child_spawn id (sample_system 3)"
proof -
  have "system_reachable sample_child_spawn id (sample_system 0)"
    using system_reachable.at_start by (simp add: sample_system_def)
  from system_reachable.by_step [OF system_reachable.by_step [OF system_reachable.by_step [OF this
      sample_system_step1] sample_system_step2] sample_system_step3]
  show ?thesis .
qed

lemma sample_system_job:
  "job_view (mem (sample_system 3)) (JobId ''k'') = Some
     ((Job_started (JobId ''k'') \<lparr>user_id = ''b''\<rparr> (Pid 43) 1)
        \<lparr>killed := Some \<lparr>killed_at = 9, killed_user = \<lparr>user_id = ''b''\<rparr>\<rparr>\<rparr>)"
  by (simp add: job_view_def sample_system_def JobTracker_job_def tracker_inner_of_def wait_start_def
        JobTracker_track_def Let_def)

definition sample_victim :: "nat job" where
  "sample_victim = (Job_started (JobId ''k'') \<lparr>user_id = ''b''\<rparr> (Pid 43) 1)
     \<lparr>killed := Some \<lparr>killed_at = 9, killed_user = \<lparr>user_id = ''b''\<rparr>\<rparr>\<rparr>"

lemma sample_victim_view: "job_view (mem (sample_system 3)) (JobId ''k'') = Some sample_victim"
  by (simp add: sample_system_job sample_victim_def)

lemma only_the_owner_kills_witness:
  "killed_user \<lparr>killed_at = 9 :: nat, killed_user = \<lparr>user_id = ''b''\<rparr>\<rparr> = job_user sample_victim"
  by (rule only_the_owner_kills [OF sample_system_reachable sample_victim_view])
     (simp add: sample_victim_def)

text \<open>
  C37: every reachable state is well formed. An identifier in the table refers to an existing
  tracker, to one that no other identifier refers to, and whose kill channel and broadcaster
  are its own; the record found there carries that identifier, and is running exactly as
  long as it has no end time.
\<close>

theorem records_are_consistent:
  assumes reach: "system_reachable opts_spawn pid_of s" and job: "job_view (mem s) i = Some j"
  shows "jid j = i \<and> (is_running (state j) \<longleftrightarrow> ended_at j = None)
    \<and> (\<exists>r < length (trackers (mem s)). jobs (mem s) i = Some r
         \<and> ti_kill_tx (tracker_inner_of (mem s) r) = r \<and> ti_bcast (tracker_inner_of (mem s) r) = r
         \<and> (\<forall>i'. jobs (mem s) i' = Some r \<longleftrightarrow> i' = i))"
proof -
  from job obtain r where r: "jobs (mem s) i = Some r" and j: "j = JobTracker_job (mem s) r"
    by (auto simp: job_view_Some)
  from reachable_tracker [OF reach r] obtain u where len: "r < length (trackers (mem s))"
    and id': "jid (JobTracker_job (mem s) r) = i" and t: "tracker_of i u r (trackers (mem s) ! r)" by blast
  have "jobs (mem s) i' = Some r \<longleftrightarrow> i' = i" for i'
    using r id' system_reachable_inv [OF reach] unfolding system_inv_def trackers_inv_def by metis
  with r len tracker_of_props(1,2) [OF t] have
    "\<exists>r < length (trackers (mem s)). jobs (mem s) i = Some r
       \<and> ti_kill_tx (tracker_inner_of (mem s) r) = r \<and> ti_bcast (tracker_inner_of (mem s) r) = r
       \<and> (\<forall>i'. jobs (mem s) i' = Some r \<longleftrightarrow> i' = i)"
    by (auto simp: tracker_inner_of_def)
  moreover from id' j tracker_of_exit(1) [OF t] have "jid j = i \<and> (is_running (state j) \<longleftrightarrow> ended_at j = None)"
    by (simp add: JobTracker_job_def tracker_inner_of_def)
  ultimately show ?thesis by blast
qed

lemma records_are_consistent_witness:
  "jid sample_victim = JobId ''k'' \<and> (is_running (state sample_victim) \<longleftrightarrow> ended_at sample_victim = None)"
  using records_are_consistent [OF sample_system_reachable sample_victim_view] by blast

text \<open>
  Jobs are never lost and never come back to life. A step of the system leaves every job
  in the table, with its identifier, owner and start; once it has exited, its status and end
  stay as they are. The hypothesis excludes the panic of \<open>spawn\<close> on a repeated identifier.
\<close>

lemma jobs_persist:
  assumes reach: "system_reachable opts_spawn pid_of s" and step: "system_step opts_spawn pid_of s s'"
    and job: "job_view (mem s) i = Some j" and fresh: "jobs (mem s') i = jobs (mem s) i"
  shows "\<exists>j'. job_view (mem s') i = Some j'
    \<and> jid j' = jid j \<and> job_user j' = job_user j \<and> started_at j' = started_at j
    \<and> (is_exited (state j) \<longrightarrow> state j' = state j \<and> ended_at j' = ended_at j)"
proof -
  from job obtain r where r: "jobs (mem s) i = Some r" and j: "j = JobTracker_job (mem s) r"
    by (auto simp: job_view_Some)
  from reachable_tracker [OF reach r] obtain u where len: "r < length (trackers (mem s))"
    and t: "tracker_of i u r (trackers (mem s) ! r)" by blast
  let ?j' = "JobTracker_job (mem s') r"
  have view: "job_view (mem s') i = Some ?j'" by (simp add: job_view_def fresh r)
  from step have "jid ?j' = jid j \<and> job_user ?j' = job_user j \<and> started_at ?j' = started_at j
    \<and> (is_exited (state j) \<longrightarrow> state ?j' = state j \<and> ended_at ?j' = ended_at j)"
  proof (cases rule: system_step.cases)
    case (call_spawn uuid now c spec m' res)
    from call_spawn(2) have "trackers m' ! r = trackers (mem s) ! r"
      by (cases rule: spawn_memory) (use len in \<open>simp_all add: nth_append\<close>)
    with call_spawn(1) show ?thesis by (simp add: j JobTracker_job_def tracker_inner_of_def)
  next
    case (call_kill c i' r' job' tx)
    then show ?thesis by (simp add: j)
  next
    case (task_step r' e st' out)
    show ?thesis
    proof (cases "r' = r")
      case False
      with task_step(1,2) show ?thesis by (simp add: j JobTracker_job_def tracker_inner_of_def)
    next
      case True
      with task_step(3) have w: "wait_step (trackers (mem s) ! r) e = Some (st', out)" by simp
      from True task_step(1,2) have "?j' = ti_job (w_inner st')"
        by (simp add: JobTracker_job_def tracker_inner_of_def)
      with wait_step_frame [OF w] exited_step [OF w] tracker_of_exit(2) [OF t] show ?thesis
        by (auto simp: j JobTracker_job_def tracker_inner_of_def)
    qed
  qed
  with view show ?thesis by blast
qed

lemma sample_system_reachable2: "system_reachable sample_child_spawn id (sample_system 2)"
proof -
  have "system_reachable sample_child_spawn id (sample_system 0)"
    using system_reachable.at_start by (simp add: sample_system_def)
  from system_reachable.by_step [OF system_reachable.by_step [OF this sample_system_step1]
      sample_system_step2]
  show ?thesis .
qed

lemma jobs_persist_sample:
  "\<exists>j'. job_view (mem (sample_system 3)) (JobId ''k'') = Some j'
    \<and> job_user j' = job_user (Job_started (JobId ''k'') \<lparr>user_id = ''b''\<rparr> (Pid 43) (1 :: nat))"
proof -
  have "job_view (mem (sample_system 2)) (JobId ''k'')
      = Some (Job_started (JobId ''k'') \<lparr>user_id = ''b''\<rparr> (Pid 43) 1)"
    and "jobs (mem (sample_system 3)) (JobId ''k'') = jobs (mem (sample_system 2)) (JobId ''k'')"
    by (simp_all add: job_view_def sample_system_def JobTracker_job_def tracker_inner_of_def
          wait_start_def JobTracker_track_def Let_def)
  from jobs_persist [OF sample_system_reachable2 sample_system_step3 this] show ?thesis by blast
qed







end
