(* ===== verification/JobTable.thy ===== *)
theory JobTable
  imports JobSystem
begin

text \<open>
  The abstract specification of the coordinator: a table of jobs. It can start a job under an
  identifier, mark a job as killed by its owner, or record the exit of a running job, and
  nothing else. The locale \<open>refinement_map\<close> lifts a simulation of single steps to whole
  executions; its interpretation shows that the system of coordinator and tasks, seen through
  \<open>job_view\<close>, behaves like the table.
\<close>

section \<open>The table\<close>

type_synonym 'dt job_table = "job_id \<rightharpoonup> 'dt job"

text \<open>
  \<open>tab_replace\<close> is the call of \<open>spawn\<close> that panics because the fresh identifier is in use: the
  code has inserted the new job by then.
\<close>

inductive table_step :: "'dt job_table \<Rightarrow> 'dt job_table \<Rightarrow> bool" where
  tab_idle: "table_step T T"
| tab_start: "T i = None \<Longrightarrow> table_step T (T(i \<mapsto> Job_started i u p now))"
| tab_replace: "T i = Some j \<Longrightarrow> table_step T (T(i \<mapsto> Job_started i u p now))"
| tab_kill: "T i = Some j \<Longrightarrow> k = \<lparr>killed_at = now, killed_user = job_user j\<rparr> \<Longrightarrow>
     table_step T (T(i \<mapsto> j\<lparr>killed := Some k\<rparr>))"
| tab_exit: "T i = Some j \<Longrightarrow> is_running (state j) \<Longrightarrow>
     table_step T (T(i \<mapsto> j\<lparr>ended_at := Some now, state := Exited (ExitStatus_from_std status)\<rparr>))"

definition table_ps :: "'dt job_table \<Rightarrow> ctx \<Rightarrow> job_id \<Rightarrow> coord_error + 'dt job" where
  "table_ps T c i =
     (case T i of
        None \<Rightarrow> Inl (JobNotFound i)
      | Some j \<Rightarrow> if user_id (job_user j) = user_id (ctx_user c) then Inr j else Inl (JobNotFound i))"

section \<open>Refinement\<close>

locale refinement_map =
  fixes start :: 's and step :: "'s \<Rightarrow> 's \<Rightarrow> bool"
    and astart :: 'a and astep :: "'a \<Rightarrow> 'a \<Rightarrow> bool"
    and abs :: "'s \<Rightarrow> 'a" and good :: "'s \<Rightarrow> bool"
  assumes start_abs: "abs start = astart"
    and start_good: "good start"
    and step_good: "good s \<Longrightarrow> step s s' \<Longrightarrow> good s'"
    and step_abs: "good s \<Longrightarrow> step s s' \<Longrightarrow> astep (abs s) (abs s')"
begin

lemma reach_good: "step\<^sup>*\<^sup>* start s \<Longrightarrow> good s"
  by (induction rule: rtranclp_induct) (auto intro: start_good step_good)

lemma reach_abs: "step\<^sup>*\<^sup>* start s \<Longrightarrow> astep\<^sup>*\<^sup>* astart (abs s)"
proof (induction rule: rtranclp_induct)
  case base
  then show ?case by (simp add: start_abs)
next
  case (step s s')
  from step_abs [OF reach_good [OF step.hyps(1)] step.hyps(2)] step.IH show ?case by simp
qed

text \<open>What holds for the specification holds for the system.\<close>

lemma transfer:
  assumes "\<And>a. astep\<^sup>*\<^sup>* astart a \<Longrightarrow> P a" and "step\<^sup>*\<^sup>* start s"
  shows "P (abs s)"
  using assms(1) [OF reach_abs [OF assms(2)]] .

end

lemma reachable_rtranclp:
  "system_reachable opts_spawn pid_of s \<Longrightarrow> (system_step opts_spawn pid_of)\<^sup>*\<^sup>* system_start s"
  by (induction rule: system_reachable.induct) auto

text \<open>What one step of a task does to the record of its job.\<close>

lemma wait_step_record:
  assumes "wait_step st e = Some (st', out)"
  shows "ti_job (w_inner st') = ti_job (w_inner st)
    \<or> (\<exists>req now. received_req e = Some req \<and> ti_job (w_inner st') =
         (ti_job (w_inner st))\<lparr>killed := Some \<lparr>killed_at = now, killed_user = req_user req\<rparr>\<rparr>)
    \<or> (\<exists>now status. child_ok st \<and> ti_job (w_inner st') =
         (ti_job (w_inner st))\<lparr>ended_at := Some now, state := Exited (ExitStatus_from_std status)\<rparr>)"
  using assms
proof (cases rule: wait_step_cases)
  case (kill_done req now)
  then show ?thesis by auto
next
  case (exited status now)
  then show ?thesis by auto
qed (auto simp: finish_def split: option.splits)

lemma job_view_update:
  assumes inv: "trackers_inv m" and r: "r < length (trackers m)" and t: "tracker_of i u r (trackers m ! r)"
    and id': "jid (ti_job (w_inner st')) = i"
  shows "job_view (update_tracker r st' m) =
    (if jobs m i = Some r then (job_view m)(i \<mapsto> ti_job (w_inner st')) else job_view m)"
proof
  fix i'
  have "q \<noteq> r" if "jobs m i' = Some q" and "i' \<noteq> i" for q
    using inv that tracker_of_props(3) [OF t]
    by (auto simp: trackers_inv_def JobTracker_job_def tracker_inner_of_def)
  then show "job_view (update_tracker r st' m) i' =
      (if jobs m i = Some r then (job_view m)(i \<mapsto> ti_job (w_inner st')) else job_view m) i'"
    using r by (cases "jobs m i'") (auto simp: job_view_def JobTracker_job_def tracker_inner_of_def)
qed

lemma task_refines:
  assumes inv: "system_inv s" and r: "r < length (trackers (mem s))"
    and step: "wait_step (trackers (mem s) ! r) e = Some (st', out)"
    and req: "\<And>req. received_req e = Some req \<Longrightarrow>
      (ti_kill_tx (tracker_inner_of (mem s) r), req) \<in> set (kill_log s)"
  shows "table_step (job_view (mem s)) (job_view (update_tracker r st' (mem s)))"
proof -
  let ?j = "JobTracker_job (mem s) r"
  from inv r obtain i u where t: "tracker_of i u r (trackers (mem s) ! r)"
    by (auto simp: system_inv_def trackers_inv_def)
  have j: "?j = ti_job (w_inner (trackers (mem s) ! r))"
    by (simp add: JobTracker_job_def tracker_inner_of_def)
  from wait_step_frame [OF step] tracker_of_props(3) [OF t] have id': "jid (ti_job (w_inner st')) = i" by simp
  from inv have "trackers_inv (mem s)" by (simp add: system_inv_def)
  note view = job_view_update [OF this r t id']
  show ?thesis
  proof (cases "jobs (mem s) i = Some r")
    case False
    then show ?thesis unfolding view by (simp add: table_step.tab_idle)
  next
    case True
    then have at: "job_view (mem s) i = Some ?j" by (simp add: job_view_def)
    from wait_step_record [OF step] have "table_step (job_view (mem s)) ((job_view (mem s))(i \<mapsto> ti_job (w_inner st')))"
    proof (elim disjE exE conjE)
      assume "ti_job (w_inner st') = ti_job (w_inner (trackers (mem s) ! r))"
      with at have "(job_view (mem s))(i \<mapsto> ti_job (w_inner st')) = job_view (mem s)"
        by (auto simp: j)
      then show ?thesis by (simp add: table_step.tab_idle)
    next
      fix q now
      assume q: "received_req e = Some q" and new: "ti_job (w_inner st') =
         (ti_job (w_inner (trackers (mem s) ! r)))\<lparr>killed := Some \<lparr>killed_at = now, killed_user = req_user q\<rparr>\<rparr>"
      from req [OF q] inv tracker_of_props(1) [OF t] have "req_user q = job_user ?j"
        by (auto simp: system_inv_def tracker_inner_of_def)
      with new have "ti_job (w_inner st') = ?j\<lparr>killed := Some \<lparr>killed_at = now, killed_user = job_user ?j\<rparr>\<rparr>"
        by (simp add: j)
      then show ?thesis by (simp only:) (rule table_step.tab_kill [where T = "job_view (mem s)" and i = i, OF at refl])
    next
      fix now status
      assume "child_ok (trackers (mem s) ! r)" and new: "ti_job (w_inner st') =
         (ti_job (w_inner (trackers (mem s) ! r)))
           \<lparr>ended_at := Some now, state := Exited (ExitStatus_from_std status)\<rparr>"
      with tracker_of_exit(2) [OF t] have "is_running (state ?j)"
        by (auto simp: j is_exited_iff)
      from table_step.tab_exit [where T = "job_view (mem s)" and i = i, OF at this] show ?thesis by (simp add: new j)
    qed
    with True show ?thesis unfolding view by simp
  qed
qed

lemma spawn_refines:
  assumes inv: "trackers_inv m"
    and call: "MemoryCoordinator_spawn opts_spawn pid_of uuid now m c spec = (m', res)"
  shows "table_step (job_view m) (job_view m')"
  using call
proof (cases rule: spawn_memory)
  case 1
  then show ?thesis by (simp add: table_step.tab_idle)
next
  case (2 p)
  let ?i = "JobId_default uuid"
  from inv have old: "jobs m i = Some r \<Longrightarrow> r < length (trackers m)" for i r
    by (simp add: trackers_inv_def)
  have "job_view m' i' = ((job_view m)(?i \<mapsto> Job_started ?i (ctx_user c) p now)) i'" for i'
    using old [of i'] by (cases "jobs m i'")
      (auto simp: job_view_def 2 JobTracker_job_def tracker_inner_of_def nth_append wait_start_def JobTracker_track_def)
  then have "job_view m' = (job_view m)(?i \<mapsto> Job_started ?i (ctx_user c) p now)" by blast
  then show ?thesis
    by (cases "job_view m ?i") (auto intro: table_step.tab_start table_step.tab_replace)
qed

interpretation job_table: refinement_map system_start "system_step opts_spawn pid_of" Map.empty table_step
    "\<lambda>s. job_view (mem s)" system_inv
  for opts_spawn :: "'os opts \<Rightarrow> (spawn_error + 'c) rust" and pid_of
proof
  show "job_view (mem system_start) = Map.empty"
    by (auto simp: system_start_def MemoryCoordinator_default_def job_view_def)
next
  show "system_inv system_start" by (rule system_inv_start)
next
  fix s s' :: "'dt system" assume "system_inv s" and "system_step opts_spawn pid_of s s'"
  then show "system_inv s'" by (rule system_inv_step [rotated])
next
  fix s s' :: "'dt system" assume inv: "system_inv s" and "system_step opts_spawn pid_of s s'"
  from this(2) show "table_step (job_view (mem s)) (job_view (mem s'))"
  proof (cases rule: system_step.cases)
    case (call_spawn uuid now c spec m' res)
    from inv have "trackers_inv (mem s)" by (simp add: system_inv_def)
    from spawn_refines [OF this call_spawn(2)] show ?thesis by (simp add: call_spawn(1))
  next
    case call_kill
    then show ?thesis by (simp add: table_step.tab_idle)
  next
    case task_step
    then show ?thesis using task_refines [OF inv] by simp
  qed
qed

section \<open>Properties\<close>

text \<open>
  C8: the coordinator refines a plain table of jobs. Whatever calls and tasks interleave, the
  jobs that clients can see change as one entry of the table at a time: a job is started,
  marked as killed by its owner, or a running job exits; \<open>ps\<close> answers what the table says.
\<close>

theorem system_refines_job_table:
  assumes reach: "system_reachable opts_spawn pid_of s"
  shows "table_step\<^sup>*\<^sup>* Map.empty (job_view (mem s))
    \<and> (\<forall>s'. system_step opts_spawn pid_of s s' \<longrightarrow> table_step (job_view (mem s)) (job_view (mem s')))
    \<and> (\<forall>c i. MemoryCoordinator_ps (mem s) c i = table_ps (job_view (mem s)) c i)"
proof (intro conjI allI impI)
  show "table_step\<^sup>*\<^sup>* Map.empty (job_view (mem s))"
    by (rule job_table.reach_abs [OF reachable_rtranclp [OF reach]])
next
  fix s' assume "system_step opts_spawn pid_of s s'"
  with system_reachable_inv [OF reach] show "table_step (job_view (mem s)) (job_view (mem s'))"
    by (rule job_table.step_abs)
next
  fix c i
  show "MemoryCoordinator_ps (mem s) c i = table_ps (job_view (mem s)) c i"
    using memory.ps_denied [of "mem s" c i] memory.ps_owned [of "mem s" c i]
    by (cases "owns job_view (mem s) c i") (auto simp: table_ps_def owns_def split: option.splits)
qed

lemma system_refines_job_table_witness:
  "table_step\<^sup>*\<^sup>* Map.empty (job_view (mem (sample_system 3)))
   \<and> MemoryCoordinator_ps (mem (sample_system 3)) (ctx_of ''b'') (JobId ''k'') = Inr sample_victim"
proof -
  note refines = system_refines_job_table [OF sample_system_reachable]
  have "table_ps (job_view (mem (sample_system 3))) (ctx_of ''b'') (JobId ''k'') = Inr sample_victim"
    by (simp add: table_ps_def sample_victim_view) (simp add: sample_victim_def ctx_of_def)
  with refines show ?thesis by metis
qed

end
