(* ===== verification/Pb.thy ===== *)
theory Pb
  imports Types
begin

text \<open>
  The protocol of \<open>src/src/pb/jobs.rs\<close>: the messages, the frame kinds with their wire
  numbers and names, the generated client with its constructors and settings, and the
  generated server with its settings and dispatch. Encoding and decoding are prost's and
  a parameter, as is the rest of tonic. A \<open>prost_types::Timestamp\<close> is the type variable \<open>'ts\<close>.
\<close>

section \<open>Requests and responses\<close>

record spawn_request =
  sreq_name :: string
  sreq_args :: "string list"

datatype logs_request = LogsRequest (lreq_job_id: string)

datatype ps_request = PsRequest (preq_job_id: string)

datatype pb_kill_request = PbKillRequest (kreq_job_id: string)

record log_frame =
  lf_kind :: i32
  lf_bs :: "u8 list"

section \<open>Jobs\<close>

datatype pb_user = PbUser (pb_user_id: string)

record 'ts pb_killed =
  pb_killed_at :: "'ts option"
  pb_killed_user :: "pb_user option"

datatype pb_state =
    PbRunning (run_pid: u32)
  | PbExited (exit_code: i32)
  | PbCrashed (crash_signal: i32) (crash_msg: string)

record 'ts pb_job =
  pb_id :: string
  pb_owner :: "pb_user option"
  pb_started_at :: "'ts option"
  pb_ended_at :: "'ts option"
  pb_killed_info :: "'ts pb_killed option"
  pb_state_of :: "pb_state option"

datatype 'ts spawn_response = SpawnResponse (sresp_job: "'ts pb_job option")

datatype 'ts ps_response = PsResponse (presp_job: "'ts pb_job option")

datatype 'ts kill_response = KillResponse (kresp_job: "'ts pb_job option")

section \<open>Frame kinds\<close>

datatype log_frame_kind = KindStdout | KindStderr

text \<open>The discriminants of the enum.\<close>

primrec LogFrameKind_number :: "log_frame_kind \<Rightarrow> i32" where
  "LogFrameKind_number KindStdout = 0"
| "LogFrameKind_number KindStderr = 1"

primrec LogFrameKind_as_str_name :: "log_frame_kind \<Rightarrow> string" where
  "LogFrameKind_as_str_name KindStdout = ''STDOUT''"
| "LogFrameKind_as_str_name KindStderr = ''STDERR''"

definition LogFrameKind_from_str_name :: "string \<Rightarrow> log_frame_kind option" where
  "LogFrameKind_from_str_name value =
     (if value = ''STDOUT'' then Some KindStdout
      else if value = ''STDERR'' then Some KindStderr
      else None)"

text \<open>
  What prost derives for the accessor \<open>LogFrame::kind()\<close> (its documented contract): the kind
  with that number. What it returns for an unknown number is left open.
\<close>

definition kind_getter :: "(i32 \<Rightarrow> log_frame_kind) \<Rightarrow> bool" where
  "kind_getter g \<longleftrightarrow> (\<forall>k. g (LogFrameKind_number k) = k)"

section \<open>Statuses and requests\<close>

text \<open>The parts of tonic's \<open>Status\<close> and \<open>Request\<close> that the source uses.\<close>

datatype grpc_code =
    Unauthenticated | InvalidArgument | NotFound | Internal | Unknown | Unimplemented

record status =
  st_code :: grpc_code
  st_msg :: string

definition mk_status :: "grpc_code \<Rightarrow> string \<Rightarrow> status" where
  "mk_status c msg = \<lparr>st_code = c, st_msg = msg\<rparr>"

text \<open>
  A request on the server: its message, the \<open>Ctx\<close> among its extensions and the certificates
  that the TLS layer attached to the connection.
\<close>

record 'a request =
  message :: 'a
  req_ctx :: "ctx option"
  peer_certs :: "u8 list list option"

section \<open>The generated client\<close>

text \<open>
  tonic is a parameter. On the client's side \<open>'g\<close> is its \<open>client::Grpc\<close>, made from a transport by
  \<open>grpc_new\<close>, and \<open>tonic_client\<close> are its methods \<open>unary\<close> and \<open>server_streaming\<close> at the four
  message types: they get the \<open>GrpcMethod\<close> put into the extensions, the path and the message,
  and give a response \<open>'r\<close>.
\<close>

type_synonym usize = "64 word"

datatype 'g store_client = StoreClient (sc_inner: 'g)

record ('g, 'r) tonic_client =
  call_spawn :: "'g \<Rightarrow> string \<times> string \<Rightarrow> string \<Rightarrow> spawn_request \<Rightarrow> 'r"
  call_logs :: "'g \<Rightarrow> string \<times> string \<Rightarrow> string \<Rightarrow> logs_request \<Rightarrow> 'r"
  call_ps :: "'g \<Rightarrow> string \<times> string \<Rightarrow> string \<Rightarrow> ps_request \<Rightarrow> 'r"
  call_kill :: "'g \<Rightarrow> string \<times> string \<Rightarrow> string \<Rightarrow> pb_kill_request \<Rightarrow> 'r"

definition StoreClient_new :: "('t \<Rightarrow> 'g) \<Rightarrow> 't \<Rightarrow> 'g store_client" where
  "StoreClient_new grpc_new inner = StoreClient (grpc_new inner)"

definition StoreClient_with_origin :: "('t \<Rightarrow> 'uri \<Rightarrow> 'g) \<Rightarrow> 't \<Rightarrow> 'uri \<Rightarrow> 'g store_client" where
  "StoreClient_with_origin grpc_with_origin inner origin = StoreClient (grpc_with_origin inner origin)"

definition StoreClient_with_interceptor ::
  "('s \<Rightarrow> 'g) \<Rightarrow> ('t \<Rightarrow> 'f \<Rightarrow> 's) \<Rightarrow> 't \<Rightarrow> 'f \<Rightarrow> 'g store_client" where
  "StoreClient_with_interceptor grpc_new intercepted inner interceptor =
     StoreClient_new grpc_new (intercepted inner interceptor)"

definition StoreClient_connect ::
  "('t \<Rightarrow> 'g) \<Rightarrow> ('d \<Rightarrow> 'e + 'ep) \<Rightarrow> ('ep \<Rightarrow> 'e + 't) \<Rightarrow> 'd \<Rightarrow> 'e + 'g store_client" where
  "StoreClient_connect grpc_new endpoint dial dst =
     and_then (endpoint dst) (\<lambda>ep.
     and_then (dial ep) (\<lambda>conn.
     Inr (StoreClient_new grpc_new conn)))"

text \<open>The four settings are passed on to tonic's functions of the same names.\<close>

definition StoreClient_send_compressed :: "('g \<Rightarrow> 'ce \<Rightarrow> 'g) \<Rightarrow> 'g store_client \<Rightarrow> 'ce \<Rightarrow> 'g store_client" where
  "StoreClient_send_compressed grpc_send c encoding = StoreClient (grpc_send (sc_inner c) encoding)"

definition StoreClient_accept_compressed :: "('g \<Rightarrow> 'ce \<Rightarrow> 'g) \<Rightarrow> 'g store_client \<Rightarrow> 'ce \<Rightarrow> 'g store_client" where
  "StoreClient_accept_compressed grpc_accept c encoding = StoreClient (grpc_accept (sc_inner c) encoding)"

definition StoreClient_max_decoding :: "('g \<Rightarrow> usize \<Rightarrow> 'g) \<Rightarrow> 'g store_client \<Rightarrow> usize \<Rightarrow> 'g store_client" where
  "StoreClient_max_decoding grpc_max c limit = StoreClient (grpc_max (sc_inner c) limit)"

definition StoreClient_max_encoding :: "('g \<Rightarrow> usize \<Rightarrow> 'g) \<Rightarrow> 'g store_client \<Rightarrow> usize \<Rightarrow> 'g store_client" where
  "StoreClient_max_encoding grpc_max c limit = StoreClient (grpc_max (sc_inner c) limit)"

text \<open>
  A method waits until the channel is ready, with \<open>ready\<close> as the result, and makes the call.
  \<open>refuse\<close> is the response that carries a status.
\<close>

definition client_ready :: "(status \<Rightarrow> 'r) \<Rightarrow> ('g \<Rightarrow> string + unit) \<Rightarrow> 'g store_client \<Rightarrow> 'r \<Rightarrow> 'r" where
  "client_ready refuse ready c k =
     (case ready (sc_inner c) of
        Inl e \<Rightarrow> refuse (mk_status Unknown (''Service was not ready: '' @ e))
      | Inr _ \<Rightarrow> k)"

definition StoreClient_spawn where
  "StoreClient_spawn tc refuse ready c req =
     client_ready refuse ready c
       (call_spawn tc (sc_inner c) (''jobs.Store'', ''Spawn'') ''/jobs.Store/Spawn'' req)"

definition StoreClient_logs where
  "StoreClient_logs tc refuse ready c req =
     client_ready refuse ready c
       (call_logs tc (sc_inner c) (''jobs.Store'', ''Logs'') ''/jobs.Store/Logs'' req)"

definition StoreClient_ps where
  "StoreClient_ps tc refuse ready c req =
     client_ready refuse ready c
       (call_ps tc (sc_inner c) (''jobs.Store'', ''Ps'') ''/jobs.Store/Ps'' req)"

definition StoreClient_kill where
  "StoreClient_kill tc refuse ready c req =
     client_ready refuse ready c
       (call_kill tc (sc_inner c) (''jobs.Store'', ''Kill'') ''/jobs.Store/Kill'' req)"

section \<open>The generated server\<close>

text \<open>The trait \<open>Store\<close>; every method gives a response \<open>'r\<close>.\<close>

record 'r store =
  store_spawn :: "spawn_request request \<Rightarrow> 'r"
  store_logs :: "logs_request request \<Rightarrow> 'r"
  store_ps :: "ps_request request \<Rightarrow> 'r"
  store_kill :: "pb_kill_request request \<Rightarrow> 'r"

text \<open>\<open>'enc\<close> is tonic's set of enabled encodings, with its default \<open>none\<close> and \<open>enable\<close>.\<close>

record ('s, 'enc) store_server =
  ss_inner :: 's
  ss_accept :: 'enc
  ss_send :: 'enc
  ss_max_decoding :: "usize option"
  ss_max_encoding :: "usize option"

definition StoreServer_from_arc :: "'enc \<Rightarrow> 's \<Rightarrow> ('s, 'enc) store_server" where
  "StoreServer_from_arc none inner =
     \<lparr>ss_inner = inner, ss_accept = none, ss_send = none, ss_max_decoding = None, ss_max_encoding = None\<rparr>"

definition StoreServer_new :: "'enc \<Rightarrow> 's \<Rightarrow> ('s, 'enc) store_server" where
  "StoreServer_new none inner = StoreServer_from_arc none inner"

definition StoreServer_with_interceptor ::
  "(('s, 'enc) store_server \<Rightarrow> 'f \<Rightarrow> 'i) \<Rightarrow> 'enc \<Rightarrow> 's \<Rightarrow> 'f \<Rightarrow> 'i" where
  "StoreServer_with_interceptor intercepted none inner interceptor =
     intercepted (StoreServer_new none inner) interceptor"

definition StoreServer_accept_compressed ::
  "('enc \<Rightarrow> 'ce \<Rightarrow> 'enc) \<Rightarrow> ('s, 'enc) store_server \<Rightarrow> 'ce \<Rightarrow> ('s, 'enc) store_server" where
  "StoreServer_accept_compressed enable s encoding = s\<lparr>ss_accept := enable (ss_accept s) encoding\<rparr>"

definition StoreServer_send_compressed ::
  "('enc \<Rightarrow> 'ce \<Rightarrow> 'enc) \<Rightarrow> ('s, 'enc) store_server \<Rightarrow> 'ce \<Rightarrow> ('s, 'enc) store_server" where
  "StoreServer_send_compressed enable s encoding = s\<lparr>ss_send := enable (ss_send s) encoding\<rparr>"

definition StoreServer_max_decoding :: "('s, 'enc) store_server \<Rightarrow> usize \<Rightarrow> ('s, 'enc) store_server" where
  "StoreServer_max_decoding s limit = s\<lparr>ss_max_decoding := Some limit\<rparr>"

definition StoreServer_max_encoding :: "('s, 'enc) store_server \<Rightarrow> usize \<Rightarrow> ('s, 'enc) store_server" where
  "StoreServer_max_encoding s limit = s\<lparr>ss_max_encoding := Some limit\<rparr>"

definition StoreServer_clone :: "('s, 'enc) store_server \<Rightarrow> ('s, 'enc) store_server" where
  "StoreServer_clone s =
     \<lparr>ss_inner = ss_inner s, ss_accept = ss_accept s, ss_send = ss_send s,
      ss_max_decoding = ss_max_decoding s, ss_max_encoding = ss_max_encoding s\<rparr>"

definition StoreServer_poll_ready :: "('s, 'enc) store_server \<Rightarrow> ('e + unit) option" where
  "StoreServer_poll_ready s = Some (Inr ())"

text \<open>
  tonic's \<open>server::Grpc\<close> with the configuration applied to it, and its \<open>unary\<close> and
  \<open>server_streaming\<close> at the four message types, which get the method and the request with its
  body \<open>'b\<close>.
\<close>

record 'enc grpc_config =
  cfg_accept :: 'enc
  cfg_send :: 'enc
  cfg_max_decoding :: "usize option"
  cfg_max_encoding :: "usize option"

record ('b, 'enc, 'r) tonic_server =
  run_spawn :: "'enc grpc_config \<Rightarrow> (spawn_request request \<Rightarrow> 'r) \<Rightarrow> 'b request \<Rightarrow> 'r"
  run_logs :: "'enc grpc_config \<Rightarrow> (logs_request request \<Rightarrow> 'r) \<Rightarrow> 'b request \<Rightarrow> 'r"
  run_ps :: "'enc grpc_config \<Rightarrow> (ps_request request \<Rightarrow> 'r) \<Rightarrow> 'b request \<Rightarrow> 'r"
  run_kill :: "'enc grpc_config \<Rightarrow> (pb_kill_request request \<Rightarrow> 'r) \<Rightarrow> 'b request \<Rightarrow> 'r"

definition StoreServer_grpc :: "('s, 'enc) store_server \<Rightarrow> 'enc grpc_config" where
  "StoreServer_grpc s =
     \<lparr>cfg_accept = ss_accept s, cfg_send = ss_send s, cfg_max_decoding = ss_max_decoding s,
      cfg_max_encoding = ss_max_encoding s\<rparr>"

definition spawn_svc :: "('b, 'enc, 'r) tonic_server \<Rightarrow> ('r store, 'enc) store_server \<Rightarrow> 'b request \<Rightarrow> 'r" where
  "spawn_svc ts s req = run_spawn ts (StoreServer_grpc s) (store_spawn (ss_inner s)) req"

definition logs_svc :: "('b, 'enc, 'r) tonic_server \<Rightarrow> ('r store, 'enc) store_server \<Rightarrow> 'b request \<Rightarrow> 'r" where
  "logs_svc ts s req = run_logs ts (StoreServer_grpc s) (store_logs (ss_inner s)) req"

definition ps_svc :: "('b, 'enc, 'r) tonic_server \<Rightarrow> ('r store, 'enc) store_server \<Rightarrow> 'b request \<Rightarrow> 'r" where
  "ps_svc ts s req = run_ps ts (StoreServer_grpc s) (store_ps (ss_inner s)) req"

definition kill_svc :: "('b, 'enc, 'r) tonic_server \<Rightarrow> ('r store, 'enc) store_server \<Rightarrow> 'b request \<Rightarrow> 'r" where
  "kill_svc ts s req = run_kill ts (StoreServer_grpc s) (store_kill (ss_inner s)) req"

definition StoreServer_call ::
  "('b, 'enc, 'r) tonic_server \<Rightarrow> (status \<Rightarrow> 'r) \<Rightarrow> ('r store, 'enc) store_server
    \<Rightarrow> string \<Rightarrow> 'b request \<Rightarrow> 'r" where
  "StoreServer_call ts refuse s path req =
     (if path = ''/jobs.Store/Spawn'' then spawn_svc ts s req
      else if path = ''/jobs.Store/Logs'' then logs_svc ts s req
      else if path = ''/jobs.Store/Ps'' then ps_svc ts s req
      else if path = ''/jobs.Store/Kill'' then kill_svc ts s req
      else refuse (mk_status Unimplemented []))"

lemmas svc_defs = spawn_svc_def logs_svc_def ps_svc_def kill_svc_def

text \<open>The name under which tonic's router finds the service.\<close>

definition SERVICE_NAME :: string where
  "SERVICE_NAME = ''jobs.Store''"

section \<open>A call over the network\<close>

text \<open>
  prost's encoding of the four request messages into bodies, the settings under which a body
  passes, and the documented contract of tonic: a client's call sends the encoded message
  to the path; a server lets the method run on the message when a body with its encoding
  passes the settings of the server.
\<close>

record 'b codec =
  enc_spawn :: "spawn_request \<Rightarrow> 'b"
  enc_logs :: "logs_request \<Rightarrow> 'b"
  enc_ps :: "ps_request \<Rightarrow> 'b"
  enc_kill :: "pb_kill_request \<Rightarrow> 'b"

definition client_ok :: "'b codec \<Rightarrow> ('g, 'r) tonic_client \<Rightarrow> 'g \<Rightarrow> (string \<Rightarrow> 'b \<Rightarrow> 'r) \<Rightarrow> bool" where
  "client_ok cd tc g send \<longleftrightarrow>
     (\<forall>meth path x. call_spawn tc g meth path x = send path (enc_spawn cd x))
     \<and> (\<forall>meth path x. call_logs tc g meth path x = send path (enc_logs cd x))
     \<and> (\<forall>meth path x. call_ps tc g meth path x = send path (enc_ps cd x))
     \<and> (\<forall>meth path x. call_kill tc g meth path x = send path (enc_kill cd x))"

definition decodes ::
  "('enc grpc_config \<Rightarrow> 'b \<Rightarrow> bool) \<Rightarrow> ('q \<Rightarrow> 'b)
    \<Rightarrow> ('enc grpc_config \<Rightarrow> ('q request \<Rightarrow> 'r) \<Rightarrow> 'b request \<Rightarrow> 'r) \<Rightarrow> bool" where
  "decodes passes enc serve \<longleftrightarrow>
     (\<forall>cfg f x c certs. passes cfg (enc x) \<longrightarrow>
        serve cfg f \<lparr>message = enc x, req_ctx = c, peer_certs = certs\<rparr>
          = f \<lparr>message = x, req_ctx = c, peer_certs = certs\<rparr>)"

definition server_ok ::
  "'b codec \<Rightarrow> ('enc grpc_config \<Rightarrow> 'b \<Rightarrow> bool) \<Rightarrow> ('b, 'enc, 'r) tonic_server \<Rightarrow> bool" where
  "server_ok cd passes ts \<longleftrightarrow>
     decodes passes (enc_spawn cd) (run_spawn ts) \<and> decodes passes (enc_logs cd) (run_logs ts)
     \<and> decodes passes (enc_ps cd) (run_ps ts) \<and> decodes passes (enc_kill cd) (run_kill ts)"

text \<open>
  Each method of the client reaches the server under the service's name, and the method of the
  same name there, which gets the message unchanged.
\<close>

lemma StoreServer_call_paths:
  "StoreServer_call ts refuse s ''/jobs.Store/Spawn'' = run_spawn ts (StoreServer_grpc s) (store_spawn (ss_inner s))"
  "StoreServer_call ts refuse s ''/jobs.Store/Logs'' = run_logs ts (StoreServer_grpc s) (store_logs (ss_inner s))"
  "StoreServer_call ts refuse s ''/jobs.Store/Ps'' = run_ps ts (StoreServer_grpc s) (store_ps (ss_inner s))"
  "StoreServer_call ts refuse s ''/jobs.Store/Kill'' = run_kill ts (StoreServer_grpc s) (store_kill (ss_inner s))"
  by (simp_all add: StoreServer_call_def svc_defs fun_eq_iff)

lemma StoreServer_call_unknown:
  "path \<notin> {''/'' @ SERVICE_NAME @ ''/Spawn'', ''/'' @ SERVICE_NAME @ ''/Logs'',
      ''/'' @ SERVICE_NAME @ ''/Ps'', ''/'' @ SERVICE_NAME @ ''/Kill''} \<Longrightarrow>
   StoreServer_call ts refuse s path req = refuse (mk_status Unimplemented [])"
  by (simp add: StoreServer_call_def SERVICE_NAME_def)

text \<open>A setting changes what it names and nothing else, and a clone serves as the original does.\<close>

lemma StoreServer_settings:
  "StoreServer_grpc (StoreServer_new none inner) =
     \<lparr>cfg_accept = none, cfg_send = none, cfg_max_decoding = None, cfg_max_encoding = None\<rparr>"
  "StoreServer_grpc (StoreServer_accept_compressed enable s e)
     = (StoreServer_grpc s)\<lparr>cfg_accept := enable (ss_accept s) e\<rparr>"
  "StoreServer_grpc (StoreServer_send_compressed enable s e)
     = (StoreServer_grpc s)\<lparr>cfg_send := enable (ss_send s) e\<rparr>"
  "StoreServer_grpc (StoreServer_max_decoding s n) = (StoreServer_grpc s)\<lparr>cfg_max_decoding := Some n\<rparr>"
  "StoreServer_grpc (StoreServer_max_encoding s n) = (StoreServer_grpc s)\<lparr>cfg_max_encoding := Some n\<rparr>"
  "StoreServer_call ts refuse (StoreServer_clone s) = StoreServer_call ts refuse s"
  by (simp_all add: StoreServer_grpc_def StoreServer_new_def StoreServer_from_arc_def
      StoreServer_accept_compressed_def StoreServer_send_compressed_def StoreServer_max_decoding_def
      StoreServer_max_encoding_def StoreServer_clone_def StoreServer_call_def svc_defs fun_eq_iff)

end
