(* ===== verification/Grpc.thy ===== *)
theory Grpc
  imports Pb Coordinator
begin

text \<open>
  \<open>src/src/grpc.rs\<close>: who is calling (the interceptor that turns the client certificate into
  a \<open>Ctx\<close>), the validation of requests, the four handlers of \<open>GrpcStoreImpl\<close> over a
  coordinator, the conversions to protocol messages and the task that feeds a log stream.
  Parsing X.509 is a parameter (\<open>parse_x509\<close> gives the text of the error or of the subject),
  as is the conversion of a time stamp and of a \<open>String\<close> to an \<open>OsString\<close>. Logging
  has no effect in the model.
\<close>

section \<open>The context of a request\<close>

definition set_ctx :: "ctx \<Rightarrow> 'a request \<Rightarrow> 'a request" where
  "set_ctx c req = req\<lparr>req_ctx := Some c\<rparr>"

definition get_ctx :: "'a request \<Rightarrow> status + ctx" where
  "get_ctx req = ok_or (mk_status Unauthenticated ''no ctx found'') (req_ctx req)"

section \<open>The interceptor\<close>

definition Ctx_try_from :: "(u8 list \<Rightarrow> string + string) \<Rightarrow> u8 list \<Rightarrow> status + ctx" where
  "Ctx_try_from parse_x509 cert =
     and_then (map_err (\<lambda>err. mk_status Unauthenticated (''bad cert: '' @ err)) (parse_x509 cert))
       (\<lambda>subject. Inr \<lparr>ctx_user = \<lparr>user_id = subject\<rparr>\<rparr>)"

definition extract_client_cert ::
  "(u8 list \<Rightarrow> string + string) \<Rightarrow> unit request \<Rightarrow> status + unit request" where
  "extract_client_cert parse_x509 req =
     (case peer_certs req of
        None \<Rightarrow> Inl (mk_status Unauthenticated ''mtls required'')
      | Some [cert] \<Rightarrow>
          and_then (Ctx_try_from parse_x509 cert) (\<lambda>ident. Inr (set_ctx ident req))
      | Some certs \<Rightarrow>
          Inl (mk_status Unauthenticated
            (''expected exactly one peer cert but got '' @ show_nat (length certs))))"

definition server_interceptor ::
  "(u8 list \<Rightarrow> string + string) \<Rightarrow> unit request \<Rightarrow> status + unit request" where
  "server_interceptor parse_x509 req =
     fold (\<lambda>i r. and_then r i) [extract_client_cert parse_x509] (Inr req)"

text \<open>
  tonic's \<open>InterceptedService\<close>: the interceptor sees the request without its message; the
  handler then gets the message with the extensions the interceptor left, and is not called
  when the interceptor refuses (tonic's documented behaviour).
\<close>

definition intercepted ::
  "(unit request \<Rightarrow> status + unit request) \<Rightarrow> (status \<Rightarrow> 'b) \<Rightarrow> ('a request \<Rightarrow> 'b) \<Rightarrow> 'a request \<Rightarrow> 'b" where
  "intercepted interceptor refuse handler req =
     (case interceptor \<lparr>message = (), req_ctx = req_ctx req, peer_certs = peer_certs req\<rparr> of
        Inl st \<Rightarrow> refuse st
      | Inr r \<Rightarrow>
          handler \<lparr>message = message req, req_ctx = req_ctx r, peer_certs = peer_certs r\<rparr>)"

definition with_interceptor ::
  "(u8 list \<Rightarrow> string + string) \<Rightarrow> (status \<Rightarrow> 'b) \<Rightarrow> ('a request \<Rightarrow> 'b) \<Rightarrow> 'a request \<Rightarrow> 'b" where
  "with_interceptor parse_x509 = intercepted (server_interceptor parse_x509)"

section \<open>Validation\<close>

definition validate_job_id :: "string \<Rightarrow> status + unit" where
  "validate_job_id i =
     (if i = [] then Inl (mk_status InvalidArgument ''job id required'') else Inr ())"

definition SpawnRequest_validate :: "spawn_request \<Rightarrow> status + unit" where
  "SpawnRequest_validate r =
     (if sreq_name r = [] then Inl (mk_status InvalidArgument ''name required'') else Inr ())"

definition LogsRequest_validate :: "logs_request \<Rightarrow> status + unit" where
  "LogsRequest_validate r = and_then (validate_job_id (lreq_job_id r)) (\<lambda>_. Inr ())"

definition PsRequest_validate :: "ps_request \<Rightarrow> status + unit" where
  "PsRequest_validate r = and_then (validate_job_id (preq_job_id r)) (\<lambda>_. Inr ())"

definition KillRequest_validate :: "pb_kill_request \<Rightarrow> status + unit" where
  "KillRequest_validate r = and_then (validate_job_id (kreq_job_id r)) (\<lambda>_. Inr ())"

section \<open>Conversions\<close>

definition Status_from :: "coord_error \<Rightarrow> status" where
  "Status_from err =
     (case err of
        JobNotFound i \<Rightarrow> mk_status NotFound ''job not found''
      | JobNotRunning i \<Rightarrow> mk_status NotFound ''job not found''
      | _ \<Rightarrow> mk_status Internal [])"

primrec LogFrameKind_from :: "stream_kind \<Rightarrow> log_frame_kind" where
  "LogFrameKind_from Stdout = KindStdout"
| "LogFrameKind_from Stderr = KindStderr"

primrec to_log_frame_kind :: "stream_kind \<Rightarrow> i32" where
  "to_log_frame_kind Stdout = LogFrameKind_number KindStdout"
| "to_log_frame_kind Stderr = LogFrameKind_number KindStderr"

definition LogFrame_from :: "frame \<Rightarrow> log_frame" where
  "LogFrame_from f = \<lparr>lf_kind = to_log_frame_kind (frame_kind f), lf_bs = frame_bs f\<rparr>"

definition PbUser_from :: "user \<Rightarrow> pb_user" where
  "PbUser_from u = PbUser (user_id u)"

definition PbKilled_from :: "('dt \<Rightarrow> 'ts) \<Rightarrow> 'dt job_killed \<Rightarrow> 'ts pb_killed" where
  "PbKilled_from ts k =
     \<lparr>pb_killed_at = Some (ts (killed_at k)), pb_killed_user = Some (PbUser_from (killed_user k))\<rparr>"

text \<open>\<open>status.code.unwrap()\<close> panics for a process that a signal ended.\<close>

definition PbState_from :: "job_state \<Rightarrow> pb_state rust" where
  "PbState_from s =
     (case s of
        Running p \<Rightarrow> Ret (PbRunning (pid_num p))
      | Exited st \<Rightarrow>
          rust_bind (expect ''called `Option::unwrap()` on a `None` value'' (code st))
            (\<lambda>c. Ret (PbExited c)))"

definition PbJob_from :: "('dt \<Rightarrow> 'ts) \<Rightarrow> 'dt job \<Rightarrow> 'ts pb_job rust" where
  "PbJob_from ts job =
     rust_bind (PbState_from (state job)) (\<lambda>s.
       Ret \<lparr>pb_id = JobId_deref (jid job),
            pb_owner = Some (PbUser_from (job_user job)),
            pb_started_at = Some (ts (started_at job)),
            pb_ended_at = map_option ts (ended_at job),
            pb_killed_info = map_option (PbKilled_from ts) (killed job),
            pb_state_of = Some s\<rparr>)"

section \<open>Handlers\<close>

text \<open>
  What the handlers do with the coordinator's answer; \<open>mk\<close> builds the response message.
\<close>

definition respond ::
  "('dt \<Rightarrow> 'ts) \<Rightarrow> ('ts pb_job option \<Rightarrow> 'b) \<Rightarrow> coord_error + 'dt job \<Rightarrow> (status + 'b) rust" where
  "respond ts mk res =
     (case res of
        Inl err \<Rightarrow> Ret (Inl (Status_from err))
      | Inr job \<Rightarrow> rust_bind (PbJob_from ts job) (\<lambda>j. Ret (Inr (mk (Some j)))))"

definition Store_spawn ::
  "(string \<Rightarrow> 'os) \<Rightarrow> ('dt \<Rightarrow> 'ts)
    \<Rightarrow> ('m \<Rightarrow> ctx \<Rightarrow> 'os job_spec \<Rightarrow> 'm \<times> (coord_error + 'dt job) rust)
    \<Rightarrow> 'm \<Rightarrow> spawn_request request \<Rightarrow> 'm \<times> (status + 'ts spawn_response) rust" where
  "Store_spawn to_os ts coord_spawn m req =
     (case get_ctx req of
        Inl st \<Rightarrow> (m, Ret (Inl st))
      | Inr c \<Rightarrow>
          let r = message req in
          (case SpawnRequest_validate r of
             Inl st \<Rightarrow> (m, Ret (Inl st))
           | Inr _ \<Rightarrow>
               let cmd = JobSpec_args to_os (JobSpec_new to_os (sreq_name r)) (sreq_args r);
                   (m', res) = coord_spawn m c cmd
               in (m', rust_bind res (respond ts SpawnResponse))))"

text \<open>
  The response of \<open>logs\<close> is the stream fed by \<open>forward_step\<close> below from the receiver \<open>'r\<close>.
\<close>

definition Store_logs ::
  "('m \<Rightarrow> ctx \<Rightarrow> job_id \<Rightarrow> coord_error + 'r) \<Rightarrow> 'm \<Rightarrow> logs_request request \<Rightarrow> status + 'r" where
  "Store_logs coord_logs m req =
     and_then (get_ctx req) (\<lambda>c.
     and_then (LogsRequest_validate (message req)) (\<lambda>_.
     map_err Status_from (coord_logs m c (JobId (lreq_job_id (message req))))))"

definition Store_ps ::
  "('dt \<Rightarrow> 'ts) \<Rightarrow> ('m \<Rightarrow> ctx \<Rightarrow> job_id \<Rightarrow> coord_error + 'dt job)
    \<Rightarrow> 'm \<Rightarrow> ps_request request \<Rightarrow> (status + 'ts ps_response) rust" where
  "Store_ps ts coord_ps m req =
     (case get_ctx req of
        Inl st \<Rightarrow> Ret (Inl st)
      | Inr c \<Rightarrow>
          (case PsRequest_validate (message req) of
             Inl st \<Rightarrow> Ret (Inl st)
           | Inr _ \<Rightarrow> respond ts PsResponse (coord_ps m c (JobId (preq_job_id (message req))))))"

definition Store_kill ::
  "('dt \<Rightarrow> 'ts) \<Rightarrow> ('m \<Rightarrow> ctx \<Rightarrow> job_id \<Rightarrow> coord_error + 'dt job)
    \<Rightarrow> 'm \<Rightarrow> pb_kill_request request \<Rightarrow> (status + 'ts kill_response) rust" where
  "Store_kill ts coord_kill m req =
     (case get_ctx req of
        Inl st \<Rightarrow> Ret (Inl st)
      | Inr c \<Rightarrow>
          (case KillRequest_validate (message req) of
             Inl st \<Rightarrow> Ret (Inl st)
           | Inr _ \<Rightarrow> respond ts KillResponse (coord_kill m c (JobId (kreq_job_id (message req))))))"

section \<open>The server as the clients see it\<close>

definition serve_spawn where
  "serve_spawn parse_x509 to_os ts coord_spawn m =
     with_interceptor parse_x509 (\<lambda>st. (m, Ret (Inl st))) (Store_spawn to_os ts coord_spawn m)"

definition serve_logs where
  "serve_logs parse_x509 coord_logs m = with_interceptor parse_x509 Inl (Store_logs coord_logs m)"

definition serve_ps where
  "serve_ps parse_x509 ts coord_ps m =
     with_interceptor parse_x509 (\<lambda>st. Ret (Inl st)) (Store_ps ts coord_ps m)"

definition serve_kill where
  "serve_kill parse_x509 ts coord_kill m =
     with_interceptor parse_x509 (\<lambda>st. Ret (Inl st)) (Store_kill ts coord_kill m)"

section \<open>The task behind a log stream\<close>

datatype forward_pc = FwdLoop | FwdDone

text \<open>
  \<open>LogRecv ev sent\<close>: \<open>records.recv()\<close> returned \<open>ev\<close>, and the send to the response stream
  that follows succeeds or not.
\<close>

datatype forward_event = LogRecv "frame_event option" bool

fun forward_step ::
  "(tracker_error \<Rightarrow> string) \<Rightarrow> forward_pc \<Rightarrow> forward_event
    \<Rightarrow> (forward_pc \<times> (status + log_frame) list) option" where
  "forward_step err_fmt FwdLoop (LogRecv None sent) =
     Some (FwdDone,
       if sent then [Inl (mk_status Internal ''log stream terminated unexpectedly'')] else [])"
| "forward_step err_fmt FwdLoop (LogRecv (Some (FrameEv f)) sent) =
     (if sent then Some (FwdLoop, [Inr (LogFrame_from f)]) else Some (FwdDone, []))"
| "forward_step err_fmt FwdLoop (LogRecv (Some (ErrorEv err)) sent) =
     Some (FwdDone,
       if sent then [Inl (mk_status Internal (''log stream failed: '' @ err_fmt err))] else [])"
| "forward_step err_fmt FwdLoop (LogRecv (Some EofEv) sent) = Some (FwdDone, [])"
| "forward_step err_fmt FwdDone ev = None"

definition Store_forward ::
  "(tracker_error \<Rightarrow> string) \<Rightarrow> forward_event list
    \<Rightarrow> (forward_pc \<times> (status + log_frame) list) option" where
  "Store_forward err_fmt es = run (forward_step err_fmt) FwdLoop es"

primrec log_event :: "forward_event \<Rightarrow> frame_event option" where
  "log_event (LogRecv ev sent) = ev"

definition items :: "frame list \<Rightarrow> (status + log_frame) list" where
  "items fs = map (\<lambda>f. Inr (LogFrame_from f)) fs"

text \<open>
  While it runs, the task has passed on every frame. It ends with an end of file and nothing
  more, with an error status after the frames, or because the client went away.
\<close>

definition forward_done ::
  "(tracker_error \<Rightarrow> string) \<Rightarrow> forward_event list \<Rightarrow> (status + log_frame) list \<Rightarrow> frame list \<Rightarrow> bool" where
  "forward_done err_fmt es out fs \<longleftrightarrow>
     (pick log_event es = map FrameEv fs @ [EofEv] \<and> out = items fs)
     \<or> (\<exists>err. pick log_event es = map FrameEv fs @ [ErrorEv err]
          \<and> (out = items fs \<or> out = items fs @
              [Inl (mk_status Internal (''log stream failed: '' @ err_fmt err))]))
     \<or> (pick log_event es = map FrameEv fs
          \<and> (out = items fs \<or> out = items fs @
              [Inl (mk_status Internal ''log stream terminated unexpectedly'')]))
     \<or> (\<exists>f. pick log_event es = map FrameEv (fs @ [f]) \<and> out = items fs)"

definition forward_inv ::
  "(tracker_error \<Rightarrow> string) \<Rightarrow> forward_event list \<Rightarrow> (status + log_frame) list \<Rightarrow> forward_pc \<Rightarrow> bool" where
  "forward_inv err_fmt es out pc \<longleftrightarrow>
     (case pc of
        FwdLoop \<Rightarrow> \<exists>fs. pick log_event es = map FrameEv fs \<and> out = items fs
      | FwdDone \<Rightarrow> \<exists>fs. forward_done err_fmt es out fs)"

lemma items_simps [simp]:
  "items [] = []"
  "items (f # fs) = Inr (LogFrame_from f) # items fs"
  "items (fs @ gs) = items fs @ items gs"
  by (simp_all add: items_def)

lemma forward_inv_step:
  assumes inv: "forward_inv err_fmt es out pc"
    and step: "forward_step err_fmt pc e = Some (pc', out')"
  shows "forward_inv err_fmt (es @ [e]) (out @ out') pc'"
proof (cases pc)
  case FwdDone
  with step show ?thesis by simp
next
  case FwdLoop
  with inv obtain fs where fs: "pick log_event es = map FrameEv fs" "out = items fs"
    by (auto simp: forward_inv_def)
  obtain ev sent where e: "e = LogRecv ev sent" by (cases e)
  show ?thesis
  proof (cases "\<exists>f. ev = Some (FrameEv f) \<and> sent")
    case True
    with step FwdLoop e fs show ?thesis
      by (auto simp: forward_inv_def forward_done_def intro!: exI [of _ "fs @ [the (event_frame (the ev))]"])
  next
    case False
    with step FwdLoop e fs show ?thesis
      by (cases ev; cases "the ev"; cases sent) (auto simp: forward_inv_def forward_done_def intro!: exI [of _ fs])
  qed
qed

interpretation forwarder: task "forward_step err_fmt" FwdLoop "forward_inv err_fmt" for err_fmt
  by unfold_locales (simp add: forward_inv_def, rule forward_inv_step)

lemma Store_forward_inv:
  "Store_forward err_fmt es = Some (pc, out) \<Longrightarrow> forward_inv err_fmt es out pc"
  unfolding Store_forward_def by (rule forwarder.run_inv)

text \<open>When no send fails, the task either reports an error or has seen the end of file.\<close>

primrec fwd_sent :: "forward_event \<Rightarrow> bool" where
  "fwd_sent (LogRecv ev sent) = sent"

definition forward_end_inv ::
  "forward_event list \<Rightarrow> (status + log_frame) list \<Rightarrow> forward_pc \<Rightarrow> bool" where
  "forward_end_inv es out pc \<longleftrightarrow>
     (pc = FwdDone \<and> list_all fwd_sent es \<longrightarrow> EofEv \<in> set (pick log_event es) \<or> (\<exists>st. Inl st \<in> set out))"

lemma forward_end_inv_step:
  "forward_step err_fmt pc e = Some (pc', out') \<Longrightarrow> forward_end_inv es out pc \<Longrightarrow>
   forward_end_inv (es @ [e]) (out @ out') pc'"
  by (cases "(err_fmt, pc, e)" rule: forward_step.cases) (auto simp: forward_end_inv_def)

interpretation forwarder_end: task "forward_step err_fmt" FwdLoop forward_end_inv for err_fmt
  by unfold_locales (simp add: forward_end_inv_def, rule forward_end_inv_step)

lemma Store_forward_eof:
  assumes run: "Store_forward err_fmt es = Some (FwdDone, out)"
    and sent: "list_all fwd_sent es" and no_err: "\<And>st. Inl st \<notin> set out"
  obtains fs where "pick log_event es = map FrameEv fs @ [EofEv]" and "out = items fs"
proof -
  from run have "forward_end_inv es out FwdDone"
    unfolding Store_forward_def by (rule forwarder_end.run_inv)
  with sent no_err have "EofEv \<in> set (pick log_event es)" by (auto simp: forward_end_inv_def)
  with Store_forward_inv [OF run] have "\<exists>fs. pick log_event es = map FrameEv fs @ [EofEv] \<and> out = items fs"
    unfolding forward_inv_def by (auto simp: forward_done_def)
  then show thesis using that by blast
qed

section \<open>Who is calling\<close>

text \<open>The identity that the certificates of a request prove, if any.\<close>

definition caller :: "(u8 list \<Rightarrow> string + string) \<Rightarrow> 'a request \<Rightarrow> ctx option" where
  "caller parse_x509 req =
     (case peer_certs req of
        Some [cert] \<Rightarrow>
          (case parse_x509 cert of
             Inl err \<Rightarrow> None
           | Inr subject \<Rightarrow> Some \<lparr>ctx_user = \<lparr>user_id = subject\<rparr>\<rparr>)
      | _ \<Rightarrow> None)"

lemma server_interceptor_eq: "server_interceptor parse_x509 req = extract_client_cert parse_x509 req"
  by (simp add: server_interceptor_def)

lemma with_interceptor_accept:
  assumes "caller parse_x509 req = Some c"
  shows "with_interceptor parse_x509 refuse handler req =
     handler \<lparr>message = message req, req_ctx = Some c, peer_certs = peer_certs req\<rparr>"
  using assms
  by (auto simp: caller_def with_interceptor_def intercepted_def server_interceptor_eq extract_client_cert_def
        Ctx_try_from_def set_ctx_def split: option.splits list.splits sum.splits)

lemma extract_client_cert_refuses:
  assumes "caller parse_x509 req = None" and "peer_certs ureq = peer_certs req"
  shows "\<exists>msg. extract_client_cert parse_x509 ureq = Inl (mk_status Unauthenticated msg)"
  using assms
  by (auto simp: caller_def extract_client_cert_def Ctx_try_from_def
        split: option.splits list.splits sum.splits)

lemma with_interceptor_refuse:
  assumes "caller parse_x509 req = None"
  shows "\<exists>st. st_code st = Unauthenticated \<and> with_interceptor parse_x509 refuse handler req = refuse st"
proof -
  from extract_client_cert_refuses [OF assms,
      of "\<lparr>message = (), req_ctx = req_ctx req, peer_certs = peer_certs req\<rparr>"]
  obtain msg where "extract_client_cert parse_x509
      \<lparr>message = (), req_ctx = req_ctx req, peer_certs = peer_certs req\<rparr>
      = Inl (mk_status Unauthenticated msg)" by auto
  then have "with_interceptor parse_x509 refuse handler req = refuse (mk_status Unauthenticated msg)"
    by (simp add: with_interceptor_def intercepted_def server_interceptor_eq)
  then show ?thesis by (intro exI [of _ "mk_status Unauthenticated msg"]) (simp add: mk_status_def)
qed

lemma get_ctx_simps [simp]:
  "get_ctx \<lparr>message = msg, req_ctx = Some c, peer_certs = certs\<rparr> = Inr c"
  "get_ctx \<lparr>message = msg, req_ctx = None, peer_certs = certs\<rparr> =
     Inl (mk_status Unauthenticated ''no ctx found'')"
  by (simp_all add: get_ctx_def)

lemma validate_simps [simp]:
  "validate_job_id i = (if i = [] then Inl (mk_status InvalidArgument ''job id required'') else Inr ())"
  "PsRequest_validate r = validate_job_id (preq_job_id r)"
  "LogsRequest_validate lr = validate_job_id (lreq_job_id lr)"
  "KillRequest_validate kr = validate_job_id (kreq_job_id kr)"
  by (simp_all add: validate_job_id_def PsRequest_validate_def LogsRequest_validate_def
        KillRequest_validate_def)

definition no_such_job :: status where
  "no_such_job = mk_status NotFound ''job not found''"

lemma Status_from_not_found [simp]: "Status_from (JobNotFound i) = no_such_job"
  by (simp add: Status_from_def no_such_job_def)

lemma respond_simps [simp]:
  "respond ts mk (Inl err) = Ret (Inl (Status_from err))"
  "respond ts mk (Inr job) = rust_bind (PbJob_from ts job) (\<lambda>j. Ret (Inr (mk (Some j))))"
  by (simp_all add: respond_def)

lemma respond_Inr:
  "respond ts mk res = Ret (Inr resp) \<Longrightarrow>
   \<exists>job j. res = Inr job \<and> PbJob_from ts job = Ret j \<and> resp = mk (Some j)"
  by (cases res) (auto simp: rust_bind_Ret_iff)

text \<open>When the conversion of a job panics.\<close>

lemma PbJob_from_panics:
  "panics (PbJob_from ts job) \<longleftrightarrow> (\<exists>st. state job = Exited st \<and> code st = None)"
  by (cases "state job") (auto simp: PbJob_from_def PbState_from_def expect_def split: option.splits)

lemma respond_panics:
  "panics (respond ts mk res) \<longleftrightarrow> (\<exists>job. res = Inr job \<and> state job = Exited \<lparr>code = None\<rparr>)"
proof (cases res)
  case (Inr job)
  have "panics (respond ts mk res) \<longleftrightarrow> panics (PbJob_from ts job)"
    by (cases "PbJob_from ts job") (simp_all add: Inr)
  also note PbJob_from_panics
  finally show ?thesis by (auto simp: Inr intro: exit_status.equality)
qed simp

section \<open>Over any coordinator\<close>

context coordinator
begin

lemma serve_ps_denied:
  "caller parse_x509 req = Some c \<Longrightarrow> preq_job_id (message req) \<noteq> [] \<Longrightarrow>
   \<not> owns view m c (JobId (preq_job_id (message req))) \<Longrightarrow>
   serve_ps parse_x509 ts ps m req = Ret (Inl no_such_job)"
  by (simp add: serve_ps_def with_interceptor_accept Store_ps_def ps_denied)

lemma serve_kill_denied:
  "caller parse_x509 req = Some c \<Longrightarrow> kreq_job_id (message req) \<noteq> [] \<Longrightarrow>
   \<not> owns view m c (JobId (kreq_job_id (message req))) \<Longrightarrow>
   serve_kill parse_x509 ts kill m req = Ret (Inl no_such_job)"
  by (simp add: serve_kill_def with_interceptor_accept Store_kill_def kill_denied)

lemma serve_logs_denied:
  "caller parse_x509 req = Some c \<Longrightarrow> lreq_job_id (message req) \<noteq> [] \<Longrightarrow>
   \<not> owns view m c (JobId (lreq_job_id (message req))) \<Longrightarrow>
   serve_logs parse_x509 logs m req = Inl no_such_job"
  by (simp add: serve_logs_def with_interceptor_accept Store_logs_def logs_denied)

lemma serve_ps_owner:
  assumes ok: "serve_ps parse_x509 ts ps m req = Ret (Inr resp)"
  shows "\<exists>c job j. caller parse_x509 req = Some c
     \<and> owns view m c (JobId (preq_job_id (message req)))
     \<and> view m (JobId (preq_job_id (message req))) = Some job
     \<and> PbJob_from ts job = Ret j \<and> resp = PsResponse (Some j)"
proof (cases "caller parse_x509 req")
  case None
  from with_interceptor_refuse [OF this, of "\<lambda>st. Ret (Inl st)" "Store_ps ts ps m"]
  obtain st where "serve_ps parse_x509 ts ps m req = Ret (Inl st)"
    unfolding serve_ps_def by blast
  with ok show ?thesis by simp
next
  case (Some c)
  with ok have "respond ts PsResponse (ps m c (JobId (preq_job_id (message req)))) = Ret (Inr resp)"
    by (auto simp: serve_ps_def with_interceptor_accept Store_ps_def split: if_splits)
  then obtain job j where "ps m c (JobId (preq_job_id (message req))) = Inr job"
    and "PbJob_from ts job = Ret j" and "resp = PsResponse (Some j)"
    by (auto dest: respond_Inr)
  with Some show ?thesis by (auto dest: ps_ok_owned)
qed

end

section \<open>Properties\<close>

text \<open>A parser that knows two certificates.\<close>

definition sample_parse :: "u8 list \<Rightarrow> string + string" where
  "sample_parse bs =
     (if bs = [97] then Inr ''a'' else if bs = [98] then Inr ''b'' else Inl ''eof'')"

definition sample_request :: "u8 list list option \<Rightarrow> 'a \<Rightarrow> 'a request" where
  "sample_request certs msg = \<lparr>message = msg, req_ctx = None, peer_certs = certs\<rparr>"

lemma sample_request_sel [simp]:
  "message (sample_request certs msg) = msg" "peer_certs (sample_request certs msg) = certs"
  by (simp_all add: sample_request_def)

lemma sample_caller [simp]:
  "caller sample_parse (sample_request (Some [[97]]) msg) = Some (ctx_of ''a'')"
  "caller sample_parse (sample_request (Some [[98]]) msg) = Some (ctx_of ''b'')"
  "caller sample_parse (sample_request (Some [[97], [98]]) msg) = None"
  by (simp_all add: caller_def sample_parse_def ctx_of_def)

text \<open>
  C10: a call without exactly one valid client certificate is refused as unauthenticated by
  every method, whatever context the request claims, and changes nothing.
\<close>

theorem unauthenticated_calls_are_refused:
  assumes "caller parse_x509 (sreq :: spawn_request request) = None"
    and "caller parse_x509 lreq = None" and "caller parse_x509 preq = None"
    and "caller parse_x509 kreq = None"
  shows "(\<exists>st. st_code st = Unauthenticated
         \<and> serve_spawn parse_x509 to_os ts coord_spawn m sreq = (m, Ret (Inl st)))
    \<and> (\<exists>st. st_code st = Unauthenticated \<and> serve_logs parse_x509 coord_logs m lreq = Inl st)
    \<and> (\<exists>st. st_code st = Unauthenticated \<and> serve_ps parse_x509 ts coord_ps m preq = Ret (Inl st))
    \<and> (\<exists>st. st_code st = Unauthenticated \<and> serve_kill parse_x509 ts coord_kill m kreq = Ret (Inl st))"
  unfolding serve_spawn_def serve_logs_def serve_ps_def serve_kill_def
  by (intro conjI, rule with_interceptor_refuse [OF assms(1)], rule with_interceptor_refuse [OF assms(2)],
      rule with_interceptor_refuse [OF assms(3)], rule with_interceptor_refuse [OF assms(4)])

lemma unauthenticated_calls_are_refused_witness:
  "\<exists>st. st_code st = Unauthenticated
     \<and> serve_ps sample_parse (id :: nat \<Rightarrow> nat) MemoryCoordinator_ps sample_memory
         (sample_request (Some [[97], [98]]) (PsRequest ''j'')) = Ret (Inl st)"
  by (rule conjunct1 [OF conjunct2 [OF conjunct2 [OF unauthenticated_calls_are_refused
        [of sample_parse "sample_request (Some [[97], [98]]) \<lparr>sreq_name = ''x'', sreq_args = []\<rparr>"
          "sample_request (Some [[97], [98]]) (LogsRequest ''j'')"
          "sample_request (Some [[97], [98]]) (PsRequest ''j'')"
          "sample_request (Some [[97], [98]]) (PbKillRequest ''j'')"]]]])
     simp_all

text \<open>
  C9: over the network too, a job of somebody else and a job that does not exist get the same
  answer from \<open>ps\<close>, \<open>logs\<close> and \<open>kill\<close>: not found, with the same text.
\<close>

theorem strangers_get_job_not_found:
  assumes "caller parse_x509 preq = Some c" and "preq_job_id (message preq) = i"
    and "caller parse_x509 lreq = Some c" and "lreq_job_id (message lreq) = i"
    and "caller parse_x509 kreq = Some c" and "kreq_job_id (message kreq) = i"
    and "i \<noteq> []" and "\<not> owns job_view m c (JobId i)"
  shows "serve_ps parse_x509 ts MemoryCoordinator_ps m preq = Ret (Inl no_such_job)
    \<and> serve_logs parse_x509 (MemoryCoordinator_logs log_send log_answer) m lreq = Inl no_such_job
    \<and> serve_kill parse_x509 ts (MemoryCoordinator_kill kill_send kill_reply tx) m kreq
        = Ret (Inl no_such_job)"
  using assms by (auto intro: memory.serve_ps_denied memory.serve_logs_denied memory.serve_kill_denied)

lemma strangers_get_job_not_found_witness:
  "serve_ps sample_parse (id :: nat \<Rightarrow> nat) MemoryCoordinator_ps sample_memory
     (sample_request (Some [[98]]) (PsRequest ''j'')) = Ret (Inl no_such_job)"
  by (rule conjunct1 [OF strangers_get_job_not_found
        [where c = "ctx_of ''b''" and i = "''j''"
          and lreq = "sample_request (Some [[98]]) (LogsRequest ''j'')"
          and kreq = "sample_request (Some [[98]]) (PbKillRequest ''j'')"]])
     (simp_all add: sample_owns)

text \<open>
  C35: \<open>ps\<close> tells the truth to the owner only: a positive answer means that the caller proved
  to be the owner, and the message carries the identifier, owner, times and state of the
  record, a running job with its process id and an exited one with its code.
\<close>

theorem ps_answers_the_owner:
  assumes ok: "serve_ps parse_x509 ts MemoryCoordinator_ps m req = Ret (Inr resp)"
  shows "\<exists>c job j. caller parse_x509 req = Some c \<and> resp = PsResponse (Some j)
    \<and> job_view m (JobId (preq_job_id (message req))) = Some job
    \<and> user_id (job_user job) = user_id (ctx_user c)
    \<and> pb_id j = JobId_deref (jid job) \<and> pb_owner j = Some (PbUser (user_id (ctx_user c)))
    \<and> pb_started_at j = Some (ts (started_at job)) \<and> pb_ended_at j = map_option ts (ended_at job)
    \<and> pb_state_of j = Some (case state job of
         Running p \<Rightarrow> PbRunning (pid_num p) | Exited st \<Rightarrow> PbExited (the (code st)))"
proof -
  from memory.serve_ps_owner [OF ok] obtain c job j where c: "caller parse_x509 req = Some c"
    and own: "owns job_view m c (JobId (preq_job_id (message req)))"
    and job: "job_view m (JobId (preq_job_id (message req))) = Some job"
    and j: "PbJob_from ts job = Ret j" and resp: "resp = PsResponse (Some j)" by blast
  from own job have "user_id (job_user job) = user_id (ctx_user c)" by (simp add: owns_def)
  with c job j resp show ?thesis
    by (auto simp: PbJob_from_def PbState_from_def PbUser_from_def rust_bind_Ret_iff expect_def
          split: job_state.splits option.splits)
qed

definition sample_pb_job :: "nat pb_job" where
  "sample_pb_job =
     \<lparr>pb_id = ''j'', pb_owner = Some (PbUser ''a''), pb_started_at = Some 0, pb_ended_at = None,
      pb_killed_info = None, pb_state_of = Some (PbRunning 42)\<rparr>"

lemma sample_ps:
  "serve_ps sample_parse id MemoryCoordinator_ps sample_memory
     (sample_request (Some [[97]]) (PsRequest ''j'')) = Ret (Inr (PsResponse (Some sample_pb_job)))"
  by (simp add: serve_ps_def with_interceptor_accept Store_ps_def MemoryCoordinator_ps_def
        get_tracker_def respond_def PbJob_from_def PbState_from_def PbUser_from_def sample_pb_job_def
        sample_job_def ctx_of_def Let_def)

lemma ps_answers_the_owner_witness:
  "\<exists>c job j. caller sample_parse (sample_request (Some [[97]]) (PsRequest ''j'')) = Some c
    \<and> PsResponse (Some sample_pb_job) = PsResponse (Some j)
    \<and> job_view sample_memory (JobId ''j'') = Some job \<and> pb_id j = JobId_deref (jid job)"
  using ps_answers_the_owner [OF sample_ps] by auto

text \<open>
  C40: a job whose process was ended by a signal, which is how every successful kill ends on
  Unix, cannot be reported: \<open>ps\<close> of its owner panics, and so does the \<open>kill\<close> that ended it;
  and these are the only calls of \<open>ps\<close> and \<open>kill\<close> that do.
\<close>

theorem signalled_job_panics_the_server:
  shows "(panics (serve_ps parse_x509 ts MemoryCoordinator_ps m preq) \<longleftrightarrow>
      (\<exists>c job. caller parse_x509 preq = Some c \<and> preq_job_id (message preq) \<noteq> []
         \<and> job_view m (JobId (preq_job_id (message preq))) = Some job
         \<and> user_id (job_user job) = user_id (ctx_user c) \<and> state job = Exited \<lparr>code = None\<rparr>))
    \<and> (panics (serve_kill parse_x509 ts (MemoryCoordinator_kill kill_send kill_reply tx) m kreq) \<longleftrightarrow>
      (\<exists>c job. caller parse_x509 kreq = Some c \<and> kreq_job_id (message kreq) \<noteq> []
         \<and> MemoryCoordinator_kill kill_send kill_reply tx m c (JobId (kreq_job_id (message kreq))) = Inr job
         \<and> state job = Exited \<lparr>code = None\<rparr>))
    \<and> (ExitStatus_from_std status = \<lparr>code = None\<rparr> \<longleftrightarrow> (\<exists>sig. status = OsSignal sig))"
proof (intro conjI)
  let ?i = "JobId (preq_job_id (message preq))"
  have ps: "panics (respond ts PsResponse (MemoryCoordinator_ps m c ?i)) \<longleftrightarrow>
      (\<exists>job. job_view m ?i = Some job \<and> user_id (job_user job) = user_id (ctx_user c)
         \<and> state job = Exited \<lparr>code = None\<rparr>)" for c
  proof (cases "owns job_view m c ?i")
    case True
    then have "MemoryCoordinator_ps m c ?i = Inr (the (job_view m ?i))" by (rule memory.ps_owned)
    with True show ?thesis by (auto simp: owns_def respond_panics simp del: respond_simps)
  next
    case False
    then have "MemoryCoordinator_ps m c ?i = Inl (JobNotFound ?i)" by (rule memory.ps_denied)
    with False show ?thesis by (auto simp: owns_def respond_panics)
  qed
  show "panics (serve_ps parse_x509 ts MemoryCoordinator_ps m preq) \<longleftrightarrow>
      (\<exists>c job. caller parse_x509 preq = Some c \<and> preq_job_id (message preq) \<noteq> [] \<and> job_view m ?i = Some job
         \<and> user_id (job_user job) = user_id (ctx_user c) \<and> state job = Exited \<lparr>code = None\<rparr>)"
  proof (cases "caller parse_x509 preq")
    case None
    from with_interceptor_refuse [OF this, of "\<lambda>st. Ret (Inl st)" "Store_ps ts MemoryCoordinator_ps m"]
    show ?thesis using None by (auto simp: serve_ps_def)
  next
    case (Some c)
    then show ?thesis by (simp add: serve_ps_def with_interceptor_accept Store_ps_def ps del: respond_simps)
  qed
  show "panics (serve_kill parse_x509 ts (MemoryCoordinator_kill kill_send kill_reply tx) m kreq) \<longleftrightarrow>
      (\<exists>c job. caller parse_x509 kreq = Some c \<and> kreq_job_id (message kreq) \<noteq> []
         \<and> MemoryCoordinator_kill kill_send kill_reply tx m c (JobId (kreq_job_id (message kreq))) = Inr job
         \<and> state job = Exited \<lparr>code = None\<rparr>)"
  proof (cases "caller parse_x509 kreq")
    case None
    from with_interceptor_refuse [OF this, of "\<lambda>st. Ret (Inl st)"
        "Store_kill ts (MemoryCoordinator_kill kill_send kill_reply tx) m"]
    show ?thesis using None by (auto simp: serve_kill_def)
  next
    case (Some c)
    then show ?thesis
      by (simp add: serve_kill_def with_interceptor_accept Store_kill_def respond_panics del: respond_simps)
  qed
  show "ExitStatus_from_std status = \<lparr>code = None\<rparr> \<longleftrightarrow> (\<exists>sig. status = OsSignal sig)"
    by (cases status) (simp_all add: ExitStatus_from_std_def)
qed

text \<open>
  C13: a successful \<open>spawn\<close> call ran exactly the requested program: the command handed to the
  operating system has the name and the arguments of the request, unchanged and in order, no
  standard input and both outputs piped; the answer carries the fresh identifier, the process
  id and the authenticated caller as the owner, and from then on the job is in the table.
\<close>

theorem spawn_runs_the_requested_command:
  assumes ok: "serve_spawn parse_x509 to_os ts
      (MemoryCoordinator_spawn (Opts_spawn cmd_spawn) TokioChild_pid uuid now) m req = (m', Ret (Inr resp))"
  shows "\<exists>c child p j. caller parse_x509 req = Some c \<and> sreq_name (message req) \<noteq> []
    \<and> cmd_spawn \<lparr>cmd_exe = to_os (sreq_name (message req)),
                 cmd_args = map to_os (sreq_args (message req)), cmd_kill_on_drop = True,
                 cmd_stdin = StdioNull, cmd_stdout = StdioPiped, cmd_stderr = StdioPiped\<rparr> = Inr child
    \<and> rc_id child = Some p \<and> resp = SpawnResponse (Some j) \<and> pb_id j = uuid
    \<and> pb_owner j = Some (PbUser (user_id (ctx_user c))) \<and> pb_state_of j = Some (PbRunning p)
    \<and> pb_started_at j = Some (ts now) \<and> pb_ended_at j = None
    \<and> job_view m' (JobId uuid) = Some (Job_started (JobId uuid) (ctx_user c) (Pid p) now)"
proof (cases "caller parse_x509 req")
  case None
  from with_interceptor_refuse [OF this, of "\<lambda>st. (m, Ret (Inl st))"] ok show ?thesis
    unfolding serve_spawn_def by (metis prod.inject rust.inject(2) sum.distinct(1))
next
  case (Some c)
  let ?spawn = "MemoryCoordinator_spawn (Opts_spawn cmd_spawn) TokioChild_pid uuid now"
  let ?spec = "JobSpec_args to_os (JobSpec_new to_os (sreq_name (message req))) (sreq_args (message req))"
  from ok Some have name: "sreq_name (message req) \<noteq> []"
    by (auto simp: serve_spawn_def with_interceptor_accept Store_spawn_def SpawnRequest_validate_def
        split: if_splits)
  obtain m1 res where call: "?spawn m c ?spec = (m1, res)" by (cases "?spawn m c ?spec")
  with ok Some name have m1: "m1 = m'" and "rust_bind res (respond ts SpawnResponse) = Ret (Inr resp)"
    by (simp_all add: serve_spawn_def with_interceptor_accept Store_spawn_def SpawnRequest_validate_def)
  then obtain job j where res: "res = Ret (Inr job)" and j: "PbJob_from ts job = Ret j"
    and resp: "resp = SpawnResponse (Some j)"
    by (auto simp: rust_bind_Ret_iff dest: respond_Inr)
  from call res m1 obtain child where child: "Opts_spawn cmd_spawn (Opts_new ?spec) = Ret (Inr child)"
    and job: "job = Job_started (JobId uuid) (ctx_user c) (Pid (TokioChild_pid child)) now"
    and view: "job_view m' (JobId uuid) = Some job"
    by (rule spawn_success)
  from child obtain raw where
    "cmd_spawn \<lparr>cmd_exe = to_os (sreq_name (message req)),
                 cmd_args = map to_os (sreq_args (message req)), cmd_kill_on_drop = True,
                 cmd_stdin = StdioNull, cmd_stdout = StdioPiped, cmd_stderr = StdioPiped\<rparr> = Inr raw"
    and "rc_id raw = Some (TokioChild_pid child)"
    by (rule Opts_spawn_success) (simp add: Opts_new_def JobSpec_new_def)
  moreover from j job have "pb_id j = uuid \<and> pb_owner j = Some (PbUser (user_id (ctx_user c)))
      \<and> pb_state_of j = Some (PbRunning (TokioChild_pid child))
      \<and> pb_started_at j = Some (ts now) \<and> pb_ended_at j = None"
    by (auto simp: PbJob_from_def PbState_from_def PbUser_from_def)
  ultimately show ?thesis using Some name resp job view by blast
qed

definition sample_spawn_request :: "spawn_request request" where
  "sample_spawn_request =
     sample_request (Some [[98]]) \<lparr>sreq_name = ''true'', sreq_args = [''x'', ''y z'']\<rparr>"

definition sample_spawn_answer :: "nat memory \<times> (status + nat spawn_response) rust" where
  "sample_spawn_answer =
     serve_spawn sample_parse id id
       (MemoryCoordinator_spawn (Opts_spawn sample_cmd_spawn) TokioChild_pid ''k'' 1)
       sample_memory sample_spawn_request"

lemma sample_spawn_answer_ok:
  "sample_spawn_answer = (fst sample_spawn_answer, Ret (Inr (SpawnResponse (Some
     \<lparr>pb_id = ''k'', pb_owner = Some (PbUser ''b''), pb_started_at = Some 1, pb_ended_at = None,
      pb_killed_info = None, pb_state_of = Some (PbRunning 42)\<rparr>))))"
  by (simp add: sample_spawn_answer_def serve_spawn_def with_interceptor_accept Store_spawn_def
        sample_spawn_request_def SpawnRequest_validate_def MemoryCoordinator_spawn_def Opts_spawn_def
        sample_cmd_spawn_def Opts_new_def JobSpec_new_def respond_def PbJob_from_def PbState_from_def
        PbUser_from_def JobId_default_def TokioChild_pid_def ctx_of_def sample_memory_def Let_def)

lemma spawn_runs_the_requested_command_witness:
  "\<exists>c. caller sample_parse sample_spawn_request = Some c
    \<and> job_view (fst sample_spawn_answer) (JobId ''k'')
        = Some (Job_started (JobId ''k'') (ctx_user c) (Pid 42) 1)"
  using spawn_runs_the_requested_command [OF sample_spawn_answer_ok [unfolded sample_spawn_answer_def]]
  unfolding sample_spawn_answer_def by auto

text \<open>
  The stream that answers \<open>logs\<close> consists of the frames received from the relay, in order,
  and at most one more item, an internal error that ends it. While sends succeed, the stream
  ends without an error exactly when the end of the log was received.
\<close>

lemma log_stream_shape:
  assumes run: "Store_forward err_fmt es = Some (pc, out)"
  shows "(\<exists>fs tail. out = items fs @ tail \<and> prefix (map FrameEv fs) (pick log_event es)
      \<and> (tail = [] \<or> (\<exists>msg. tail = [Inl (mk_status Internal msg)]) \<and> pc = FwdDone))
    \<and> (pc = FwdDone \<and> list_all fwd_sent es \<longrightarrow>
      ((\<forall>st. Inl st \<notin> set out) \<longleftrightarrow> EofEv \<in> set (pick log_event es)))"
proof -
  note inv = Store_forward_inv [OF run]
  have shape: "\<exists>fs tail. out = items fs @ tail \<and> prefix (map FrameEv fs) (pick log_event es)
      \<and> (tail = [] \<or> (\<exists>msg. tail = [Inl (mk_status Internal msg)]) \<and> pc = FwdDone)"
  proof (cases pc)
    case FwdLoop
    with inv obtain fs where "pick log_event es = map FrameEv fs" and "out = items fs"
      by (auto simp: forward_inv_def)
    then show ?thesis by (intro exI [of _ fs] exI [of _ "[]"]) simp
  next
    case FwdDone
    with inv obtain fs where "forward_done err_fmt es out fs" by (auto simp: forward_inv_def)
    then have "prefix (map FrameEv fs) (pick log_event es)
        \<and> (out = items fs \<or> (\<exists>msg. out = items fs @ [Inl (mk_status Internal msg)]))"
      by (auto simp: forward_done_def)
    then have pre: "prefix (map FrameEv fs) (pick log_event es)"
      and "out = items fs \<or> (\<exists>msg. out = items fs @ [Inl (mk_status Internal msg)])"
      by (rule conjunct1, rule conjunct2)
    from this(2) show ?thesis
    proof (elim disjE exE)
      assume "out = items fs"
      with pre show ?thesis by (intro exI [of _ fs] exI [of _ "[]"]) simp
    next
      fix msg assume "out = items fs @ [Inl (mk_status Internal msg)]"
      with pre FwdDone show ?thesis
        by (intro exI [of _ fs] exI [of _ "[Inl (mk_status Internal msg)]"]) auto
    qed
  qed
  have "(\<forall>st. Inl st \<notin> set out) \<longleftrightarrow> EofEv \<in> set (pick log_event es)"
    if pc: "pc = FwdDone" and sent: "list_all fwd_sent es"
  proof
    assume "\<forall>st. Inl st \<notin> set out"
    then obtain fs where "pick log_event es = map FrameEv fs @ [EofEv]"
      using Store_forward_eof [OF run [unfolded pc] sent] by blast
    then show "EofEv \<in> set (pick log_event es)" by simp
  next
    assume "EofEv \<in> set (pick log_event es)"
    with inv pc show "\<forall>st. Inl st \<notin> set out" by (auto simp: forward_inv_def forward_done_def items_def)
  qed
  with shape show ?thesis by blast
qed

lemma sample_forward:
  "Store_forward (\<lambda>e. []) [LogRecv (Some (FrameEv (Frame_new Stderr [33]))) True, LogRecv (Some EofEv) True]
     = Some (FwdDone, items [Frame_new Stderr [33]])"
  by (simp add: Store_forward_def)

lemma log_stream_shape_sample:
  "(\<forall>st. Inl st \<notin> set (items [Frame_new Stderr [33]])) \<longleftrightarrow>
   EofEv \<in> set (pick log_event [LogRecv (Some (FrameEv (Frame_new Stderr [33]))) True, LogRecv (Some EofEv) True])"
proof -
  have "list_all fwd_sent [LogRecv (Some (FrameEv (Frame_new Stderr [33]))) True, LogRecv (Some EofEv) True]"
    by simp
  with log_stream_shape [OF sample_forward] show ?thesis by blast
qed

section \<open>The service on the network\<close>

text \<open>What the four methods answer, as one type; \<open>AnsStatus\<close> is a refusal by tonic.\<close>

datatype ('m, 'ts, 'r) answer =
    AnsSpawn "'m \<times> (status + 'ts spawn_response) rust"
  | AnsLogs "status + 'r"
  | AnsPs "(status + 'ts ps_response) rust"
  | AnsKill "(status + 'ts kill_response) rust"
  | AnsStatus status

definition GrpcStoreImpl_store where
  "GrpcStoreImpl_store to_os ts coord_spawn coord_logs coord_ps coord_kill m =
     \<lparr>store_spawn = (\<lambda>req. AnsSpawn (Store_spawn to_os ts coord_spawn m req)),
      store_logs = (\<lambda>req. AnsLogs (Store_logs coord_logs m req)),
      store_ps = (\<lambda>req. AnsPs (Store_ps ts coord_ps m req)),
      store_kill = (\<lambda>req. AnsKill (Store_kill ts coord_kill m req))\<rparr>"

text \<open>
  The service that \<open>run_server\<close> adds to the server: a path and a request with its body give an
  answer. The interceptor comes first.
\<close>

definition store_service where
  "store_service parse_x509 tonic none store =
     StoreServer_with_interceptor
       (\<lambda>s f path. intercepted f AnsStatus (StoreServer_call tonic AnsStatus s path))
       none store (server_interceptor parse_x509)"

text \<open>
  \<open>Server::builder().add_service\<close> puts the service, with its interceptor, behind tonic's router:
  it gets the paths of the form \<open>/jobs.Store/...\<close> and no other. tonic answers all other paths
  itself as unimplemented, before any interceptor.
\<close>

definition routed :: "string \<Rightarrow> string \<Rightarrow> bool" where
  "routed name path \<longleftrightarrow> strict_prefix (''/'' @ name @ ''/'') path"

definition add_service where
  "add_service service path req =
     (if routed SERVICE_NAME path then service path req else AnsStatus (mk_status Unimplemented []))"

text \<open>A connection of a client with certificates \<open>certs\<close>: bodies arrive without extensions.\<close>

definition network where
  "network service certs path body =
     add_service service path \<lparr>message = body, req_ctx = None, peer_certs = certs\<rparr>"

lemma network_unrouted:
  "\<not> routed SERVICE_NAME path \<Longrightarrow> network service certs path body = AnsStatus (mk_status Unimplemented [])"
  by (simp add: network_def add_service_def)

lemma routed_paths [simp]:
  "routed SERVICE_NAME ''/jobs.Store/Spawn''" "routed SERVICE_NAME ''/jobs.Store/Logs''"
  "routed SERVICE_NAME ''/jobs.Store/Ps''" "routed SERVICE_NAME ''/jobs.Store/Kill''"
  by (simp_all add: routed_def SERVICE_NAME_def strict_prefix_def)

lemma caller_message: "caller parse_x509 \<lparr>message = msg, req_ctx = c, peer_certs = certs\<rparr>
    = caller parse_x509 \<lparr>message = (), req_ctx = None, peer_certs = certs\<rparr>"
  by (simp add: caller_def)

lemma network_eq:
  "routed SERVICE_NAME path \<Longrightarrow> network (store_service parse_x509 tonic none store) certs path body =
     with_interceptor parse_x509 AnsStatus (StoreServer_call tonic AnsStatus (StoreServer_new none store) path)
       \<lparr>message = body, req_ctx = None, peer_certs = certs\<rparr>"
  by (simp add: network_def add_service_def store_service_def StoreServer_with_interceptor_def with_interceptor_def)

lemma network_accept:
  assumes "caller parse_x509 \<lparr>message = (), req_ctx = None, peer_certs = certs\<rparr> = Some c"
    and route: "routed SERVICE_NAME path"
  shows "network (store_service parse_x509 tonic none store) certs path body =
     StoreServer_call tonic AnsStatus (StoreServer_new none store) path
       \<lparr>message = body, req_ctx = Some c, peer_certs = certs\<rparr>"
proof -
  from assms(1) have "caller parse_x509 \<lparr>message = body, req_ctx = None, peer_certs = certs\<rparr> = Some c"
    by (subst caller_message)
  from with_interceptor_accept [OF this] show ?thesis by (simp add: network_eq [OF route])
qed

definition job_service where
  "job_service parse_x509 tonic none to_os ts coord_spawn coord_logs coord_ps coord_kill m =
     store_service parse_x509 tonic none
       (GrpcStoreImpl_store to_os ts coord_spawn coord_logs coord_ps coord_kill m)"

definition connection_user :: "(u8 list \<Rightarrow> string + string) \<Rightarrow> u8 list list option \<Rightarrow> ctx option" where
  "connection_user parse_x509 certs = caller parse_x509 \<lparr>message = (), req_ctx = None, peer_certs = certs\<rparr>"

text \<open>What becomes of a call on a connection whose user is known, and on any other one.\<close>

lemma accepted_connection:
  assumes "service = job_service parse_x509 tonic none to_os ts coord_spawn coord_logs coord_ps coord_kill m"
    and "connection_user parse_x509 certs = Some c"
  shows "routed SERVICE_NAME p \<Longrightarrow> network service certs p b = StoreServer_call tonic AnsStatus
      (StoreServer_new none (GrpcStoreImpl_store to_os ts coord_spawn coord_logs coord_ps coord_kill m)) p
      \<lparr>message = b, req_ctx = Some c, peer_certs = certs\<rparr>"
    and "with_interceptor parse_x509 refuse h \<lparr>message = msg, req_ctx = None, peer_certs = certs\<rparr>
      = h \<lparr>message = msg, req_ctx = Some c, peer_certs = certs\<rparr>"
proof -
  show "network service certs p b = StoreServer_call tonic AnsStatus
      (StoreServer_new none (GrpcStoreImpl_store to_os ts coord_spawn coord_logs coord_ps coord_kill m)) p
      \<lparr>message = b, req_ctx = Some c, peer_certs = certs\<rparr>" if "routed SERVICE_NAME p"
    using assms(2) that unfolding assms(1) job_service_def connection_user_def by (rule network_accept)
  have "caller parse_x509 \<lparr>message = msg, req_ctx = None, peer_certs = certs\<rparr> = Some c"
    using assms(2) unfolding connection_user_def by (subst caller_message)
  from with_interceptor_accept [OF this]
  show "with_interceptor parse_x509 refuse h \<lparr>message = msg, req_ctx = None, peer_certs = certs\<rparr>
      = h \<lparr>message = msg, req_ctx = Some c, peer_certs = certs\<rparr>" by simp
qed

lemma refused_connection:
  assumes "service = job_service parse_x509 tonic none to_os ts coord_spawn coord_logs coord_ps coord_kill m"
    and "connection_user parse_x509 certs = None" and route: "routed SERVICE_NAME path"
  shows "\<exists>st. network service certs path body = AnsStatus st \<and> st_code st = Unauthenticated"
proof -
  from assms(2) have "caller parse_x509 \<lparr>message = body, req_ctx = None, peer_certs = certs\<rparr> = None"
    unfolding connection_user_def by (subst caller_message)
  from with_interceptor_refuse [OF this, of AnsStatus] show ?thesis
    unfolding assms(1) job_service_def network_eq [OF route] by fastforce
qed

lemma StoreServer_new_inner: "ss_inner (StoreServer_new none store) = store"
  by (simp add: StoreServer_new_def StoreServer_from_arc_def)

text \<open>
  C11: a call of the generated client to the server with the service of this program. With one
  valid certificate on the connection, when the client is ready and the encoded message passes
  tonic's settings for the service, which has neither compression nor size limits of its own,
  each of the four methods ends in the handler of the same name and gets its answer to the
  message that was sent. Without one, everything sent to a path of the service is refused as
  unauthenticated. Any other path is answered as unimplemented: below the name of the service by
  the service itself, to those who may use it, and elsewhere by the router, to everyone.
\<close>

theorem calls_reach_their_handlers:
  assumes serv: "service = job_service parse_x509 tonic none to_os ts coord_spawn coord_logs coord_ps coord_kill m"
    and client: "client_ok cd tc (sc_inner cl) (network service certs)"
    and server: "server_ok cd passes tonic"
    and fits: "list_all (passes \<lparr>cfg_accept = none, cfg_send = none, cfg_max_decoding = None, cfg_max_encoding = None\<rparr>)
        [enc_spawn cd sreq, enc_logs cd lreq, enc_ps cd preq, enc_kill cd kreq]"
    and ready: "ready (sc_inner cl) = Inr ()"
  shows "(connection_user parse_x509 certs \<noteq> None \<longrightarrow>
      StoreClient_spawn tc AnsStatus ready cl sreq = AnsSpawn (serve_spawn parse_x509 to_os ts coord_spawn m
          \<lparr>message = sreq, req_ctx = None, peer_certs = certs\<rparr>)
      \<and> StoreClient_logs tc AnsStatus ready cl lreq = AnsLogs (serve_logs parse_x509 coord_logs m
          \<lparr>message = lreq, req_ctx = None, peer_certs = certs\<rparr>)
      \<and> StoreClient_ps tc AnsStatus ready cl preq = AnsPs (serve_ps parse_x509 ts coord_ps m
          \<lparr>message = preq, req_ctx = None, peer_certs = certs\<rparr>)
      \<and> StoreClient_kill tc AnsStatus ready cl kreq = AnsKill (serve_kill parse_x509 ts coord_kill m
          \<lparr>message = kreq, req_ctx = None, peer_certs = certs\<rparr>))
    \<and> (path \<notin> {''/jobs.Store/Spawn'', ''/jobs.Store/Logs'', ''/jobs.Store/Ps'', ''/jobs.Store/Kill''}
        \<and> (connection_user parse_x509 certs \<noteq> None \<or> \<not> routed SERVICE_NAME path) \<longrightarrow>
           network service certs path body = AnsStatus (mk_status Unimplemented []))
    \<and> (connection_user parse_x509 certs = None \<and> routed SERVICE_NAME path \<longrightarrow>
      (\<exists>st. network service certs path body = AnsStatus st \<and> st_code st = Unauthenticated))"
proof (cases "connection_user parse_x509 certs")
  case None
  with refused_connection [OF serv] network_unrouted show ?thesis by auto
next
  case (Some c)
  note net = accepted_connection(1) [OF serv Some routed_paths(1)] accepted_connection(1) [OF serv Some routed_paths(2)]
    accepted_connection(1) [OF serv Some routed_paths(3)] accepted_connection(1) [OF serv Some routed_paths(4)]
    and handler = accepted_connection(2) [OF serv Some]
  note serves = server [unfolded server_ok_def decodes_def] fits [unfolded list.pred_inject]
  note unfold = client_ready_def client_ok_def net StoreServer_call_paths StoreServer_settings(1) handler
    StoreServer_new_inner GrpcStoreImpl_store_def
  have "StoreClient_spawn tc AnsStatus ready cl sreq = AnsSpawn (serve_spawn parse_x509 to_os ts coord_spawn m
      \<lparr>message = sreq, req_ctx = None, peer_certs = certs\<rparr>)"
    using client serves ready by (simp add: StoreClient_spawn_def serve_spawn_def unfold)
  moreover have "StoreClient_logs tc AnsStatus ready cl lreq = AnsLogs (serve_logs parse_x509 coord_logs m
      \<lparr>message = lreq, req_ctx = None, peer_certs = certs\<rparr>)"
    using client serves ready by (simp add: StoreClient_logs_def serve_logs_def unfold)
  moreover have "StoreClient_ps tc AnsStatus ready cl preq = AnsPs (serve_ps parse_x509 ts coord_ps m
      \<lparr>message = preq, req_ctx = None, peer_certs = certs\<rparr>)"
    using client serves ready by (simp add: StoreClient_ps_def serve_ps_def unfold)
  moreover have "StoreClient_kill tc AnsStatus ready cl kreq = AnsKill (serve_kill parse_x509 ts coord_kill m
      \<lparr>message = kreq, req_ctx = None, peer_certs = certs\<rparr>)"
    using client serves ready by (simp add: StoreClient_kill_def serve_kill_def unfold)
  moreover have "network service certs path body = AnsStatus (mk_status Unimplemented [])"
    if "path \<notin> {''/jobs.Store/Spawn'', ''/jobs.Store/Logs'', ''/jobs.Store/Ps'', ''/jobs.Store/Kill''}"
  proof (cases "routed SERVICE_NAME path")
    case True
    show ?thesis
      unfolding accepted_connection(1) [OF serv Some True] using that
      by (intro StoreServer_call_unknown) (simp add: SERVICE_NAME_def)
  qed (rule network_unrouted)
  ultimately show ?thesis using Some by simp
qed

datatype sample_body =
    BodySpawn spawn_request | BodyLogs logs_request | BodyPs ps_request | BodyKill pb_kill_request

definition sample_codec :: "sample_body codec" where
  "sample_codec = \<lparr>enc_spawn = BodySpawn, enc_logs = BodyLogs, enc_ps = BodyPs, enc_kill = BodyKill\<rparr>"

definition sample_serve ::
  "(sample_body \<Rightarrow> 'q option) \<Rightarrow> unit grpc_config \<Rightarrow> ('q request \<Rightarrow> ('m, 'ts, 'r) answer)
    \<Rightarrow> sample_body request \<Rightarrow> ('m, 'ts, 'r) answer" where
  "sample_serve get cfg f req =
     (case get (message req) of
        None \<Rightarrow> AnsStatus (mk_status Internal [])
      | Some x \<Rightarrow> f \<lparr>message = x, req_ctx = req_ctx req, peer_certs = peer_certs req\<rparr>)"

definition sample_tonic :: "(sample_body, unit, ('m, 'ts, 'r) answer) tonic_server" where
  "sample_tonic =
     \<lparr>run_spawn = sample_serve (\<lambda>b. case b of BodySpawn x \<Rightarrow> Some x | _ \<Rightarrow> None),
      run_logs = sample_serve (\<lambda>b. case b of BodyLogs x \<Rightarrow> Some x | _ \<Rightarrow> None),
      run_ps = sample_serve (\<lambda>b. case b of BodyPs x \<Rightarrow> Some x | _ \<Rightarrow> None),
      run_kill = sample_serve (\<lambda>b. case b of BodyKill x \<Rightarrow> Some x | _ \<Rightarrow> None)\<rparr>"

definition sample_service ::
  "string \<Rightarrow> sample_body request \<Rightarrow> (nat memory, nat, unit) answer" where
  "sample_service =
     job_service sample_parse sample_tonic () id id
       (MemoryCoordinator_spawn (Opts_spawn sample_cmd_spawn) TokioChild_pid ''k'' 1)
       (MemoryCoordinator_logs (\<lambda>r. True) (\<lambda>r. Received ())) MemoryCoordinator_ps
       (MemoryCoordinator_kill (\<lambda>c r. True) (\<lambda>r. Elapsed) 9) sample_memory"

definition sample_calls :: "u8 list list option \<Rightarrow> (unit, (nat memory, nat, unit) answer) tonic_client" where
  "sample_calls certs =
     \<lparr>call_spawn = (\<lambda>g meth path x. network sample_service certs path (BodySpawn x)),
      call_logs = (\<lambda>g meth path x. network sample_service certs path (BodyLogs x)),
      call_ps = (\<lambda>g meth path x. network sample_service certs path (BodyPs x)),
      call_kill = (\<lambda>g meth path x. network sample_service certs path (BodyKill x))\<rparr>"

lemma sample_tonic_ok: "server_ok sample_codec (\<lambda>cfg body. True) sample_tonic"
  by (simp add: server_ok_def decodes_def sample_codec_def sample_tonic_def sample_serve_def)

lemma sample_calls_ok: "client_ok sample_codec (sample_calls certs) g (network sample_service certs)"
  by (simp add: client_ok_def sample_codec_def sample_calls_def)

lemma calls_reach_their_handlers_witness:
  "StoreClient_ps (sample_calls (Some [[97]])) AnsStatus (\<lambda>g. Inr ()) (StoreClient ()) (PsRequest ''j'')
     = AnsPs (serve_ps sample_parse id MemoryCoordinator_ps sample_memory
         (sample_request (Some [[97]]) (PsRequest ''j'')))
   \<and> (\<exists>st. network sample_service None ''/jobs.Store/x'' (BodyPs (PsRequest ''j'')) = AnsStatus st
        \<and> st_code st = Unauthenticated)
   \<and> network sample_service None ''/x'' (BodyPs (PsRequest ''j'')) = AnsStatus (mk_status Unimplemented [])"
proof (intro conjI)
  note reach = calls_reach_their_handlers [OF sample_service_def sample_calls_ok sample_tonic_ok,
      where ready = "\<lambda>g. Inr ()" and cl = "StoreClient ()", simplified]
  have "connection_user sample_parse (Some [[97]]) \<noteq> None"
    by (simp add: connection_user_def caller_def sample_parse_def)
  with reach [where certs = "Some [[97]]"]
  show "StoreClient_ps (sample_calls (Some [[97]])) AnsStatus (\<lambda>g. Inr ()) (StoreClient ()) (PsRequest ''j'')
     = AnsPs (serve_ps sample_parse id MemoryCoordinator_ps sample_memory
         (sample_request (Some [[97]]) (PsRequest ''j'')))"
    by (simp add: sample_request_def)
  have "connection_user sample_parse None = None" by (simp add: connection_user_def caller_def)
  with reach [where certs = None]
  show "\<exists>st. network sample_service None ''/jobs.Store/x'' (BodyPs (PsRequest ''j'')) = AnsStatus st
        \<and> st_code st = Unauthenticated"
    by (auto simp: routed_def SERVICE_NAME_def strict_prefix_def)
  from reach [where certs = None]
  show "network sample_service None ''/x'' (BodyPs (PsRequest ''j'')) = AnsStatus (mk_status Unimplemented [])"
    by (auto simp: routed_def SERVICE_NAME_def strict_prefix_def)
qed

end
