(* ===== verification/KillPath.thy ===== *)
theory KillPath
  imports JobSystem Grpc
begin

text \<open>
  The whole way of a kill: the gRPC call, the coordinator in any reachable state, the task of
  the job's tracker and the answer on the way back. The call and the task are joined by the
  channel of kill requests and the oneshot channel of each request; \<open>replies_of_task\<close> is their
  documented contract: what the caller receives on a request is what the task has sent on it.
\<close>

section \<open>The channels between a call and a task\<close>

text \<open>Tracker \<open>r\<close> with its original record \<open>j0\<close>, and the answers that its task has sent.\<close>

definition task_run :: "'dt memory \<Rightarrow> nat \<Rightarrow> 'dt job \<Rightarrow> 'dt wait_out list \<Rightarrow> bool" where
  "task_run m r j0 out \<longleftrightarrow>
     jid j0 = jid (JobTracker_job m r) \<and> job_user j0 = job_user (JobTracker_job m r)
     \<and> (\<exists>es st. JobTracker_wait (JobTracker_track j0 r r) es = Some (st, out))"

definition replies_of_task ::
  "'dt memory \<Rightarrow> nat \<Rightarrow> (kill_request \<Rightarrow> (io_error + 'dt job) oneshot_wait) \<Rightarrow> bool" where
  "replies_of_task m r kill_reply \<longleftrightarrow>
     (\<forall>q j. kill_reply q = Received (Inr j) \<longrightarrow>
        (\<exists>j0 out. task_run m r j0 out \<and> Reply q (Inr j) \<in> set out))"

lemma task_run_answer:
  assumes "task_run m r j0 out" and "Reply q (Inr j) \<in> set out"
  shows "jid j = jid (JobTracker_job m r)" and "job_user j = job_user (JobTracker_job m r)"
    and "is_exited (state j)" and "ended_at j \<noteq> None" and "killed j \<noteq> None"
proof -
  from assms(1) obtain es st where run: "JobTracker_wait (JobTracker_track j0 r r) es = Some (st, out)"
    and same: "jid j0 = jid (JobTracker_job m r)" "job_user j0 = job_user (JobTracker_job m r)"
    by (auto simp: task_run_def)
  from kill_answer_is_a_dead_job [OF run assms(2)] same
  show "jid j = jid (JobTracker_job m r)" and "job_user j = job_user (JobTracker_job m r)"
    and "is_exited (state j)" and "ended_at j \<noteq> None" and "killed j \<noteq> None" by simp_all
qed

section \<open>The call\<close>

lemma serve_kill_Inr:
  assumes ok: "serve_kill parse_x509 ts kill m req = Ret (Inr resp)"
  shows "\<exists>c job j. caller parse_x509 req = Some c
     \<and> kill m c (JobId (kreq_job_id (message req))) = Inr job
     \<and> PbJob_from ts job = Ret j \<and> resp = KillResponse (Some j)"
proof (cases "caller parse_x509 req")
  case None
  from with_interceptor_refuse [OF this, of "\<lambda>st. Ret (Inl st)" "Store_kill ts kill m"]
  obtain st where "serve_kill parse_x509 ts kill m req = Ret (Inl st)"
    unfolding serve_kill_def by blast
  with ok show ?thesis by simp
next
  case (Some c)
  with ok have "respond ts KillResponse (kill m c (JobId (kreq_job_id (message req)))) = Ret (Inr resp)"
    by (auto simp: serve_kill_def with_interceptor_accept Store_kill_def split: if_splits)
  with Some show ?thesis by (auto dest: respond_Inr)
qed

lemma kill_Inr:
  assumes "MemoryCoordinator_kill kill_send kill_reply tx m c i = Inr job"
  shows "\<exists>r ch q. jobs m i = Some r \<and> job_user (JobTracker_job m r) = ctx_user c
    \<and> JobTracker_request (tracker_inner_of m r) c tx = (ch, q) \<and> kill_send ch q
    \<and> kill_reply q = Received (Inr job)"
proof (cases "get_tracker m c i")
  case (Inl e)
  with assms show ?thesis by (simp add: MemoryCoordinator_kill_def)
next
  case (Inr rj)
  then obtain r j where found: "get_tracker m c i = Inr (r, j)" by (cases rj) auto
  obtain ch q where q: "JobTracker_request (tracker_inner_of m r) c tx = (ch, q)"
    by (cases "JobTracker_request (tracker_inner_of m r) c tx")
  from assms have "kill_send ch q \<and> kill_reply q = Received (Inr job)"
    by (auto simp: MemoryCoordinator_kill_def found JobTracker_kill_def q split: oneshot_wait.splits sum.splits
        kill_error.splits if_splits)
  with q get_tracker_InrD [OF found] show ?thesis by auto
qed

section \<open>Properties\<close>

text \<open>
  C14: a kill that is answered positively has killed the job. The caller proved by its
  certificate to be the owner, the request named the caller and went to the task of that job,
  and the job in the answer carries the requested identifier and the caller as its owner, has
  exited with a code, and has an end time and the record of a kill.
\<close>

theorem answered_kill_has_killed:
  assumes reach: "system_reachable opts_spawn pid_of s"
    and ok: "serve_kill parse_x509 ts (MemoryCoordinator_kill kill_send kill_reply tx) (mem s) req = Ret (Inr resp)"
    and replies: "\<And>r. jobs (mem s) (JobId (kreq_job_id (message req))) = Some r \<Longrightarrow>
      replies_of_task (mem s) r kill_reply"
  shows "\<exists>c j r. caller parse_x509 req = Some c \<and> resp = KillResponse (Some j)
    \<and> jobs (mem s) (JobId (kreq_job_id (message req))) = Some r
    \<and> JobTracker_request (tracker_inner_of (mem s) r) c tx = (r, KillRequest_new c tx)
    \<and> kill_send r (KillRequest_new c tx)
    \<and> pb_id j = kreq_job_id (message req) \<and> pb_owner j = Some (PbUser (user_id (ctx_user c)))
    \<and> (\<exists>code. pb_state_of j = Some (PbExited code))
    \<and> pb_ended_at j \<noteq> None \<and> pb_killed_info j \<noteq> None"
proof -
  let ?i = "JobId (kreq_job_id (message req))"
  from serve_kill_Inr [OF ok] obtain c job j where c: "caller parse_x509 req = Some c"
    and killed: "MemoryCoordinator_kill kill_send kill_reply tx (mem s) c ?i = Inr job"
    and j: "PbJob_from ts job = Ret j" and resp: "resp = KillResponse (Some j)" by blast
  from kill_Inr [OF killed] obtain r ch q where r: "jobs (mem s) ?i = Some r"
    and owner: "job_user (JobTracker_job (mem s) r) = ctx_user c"
    and q: "JobTracker_request (tracker_inner_of (mem s) r) c tx = (ch, q)" and sent: "kill_send ch q"
    and got: "kill_reply q = Received (Inr job)" by blast
  from replies [OF r] got obtain j0 out where "task_run (mem s) r j0 out" and "Reply q (Inr job) \<in> set out"
    unfolding replies_of_task_def by blast
  note dead = task_run_answer [OF this]
  from reachable_tracker [OF reach r] obtain u where id': "jid (JobTracker_job (mem s) r) = ?i"
    and t: "tracker_of ?i u r (trackers (mem s) ! r)" by blast
  from tracker_of_props(1) [OF t] q have "ch = r" and "q = KillRequest_new c tx"
    by (auto simp: JobTracker_request_def tracker_inner_of_def)
  moreover from dead id' owner j have "pb_id j = kreq_job_id (message req)"
    and "pb_owner j = Some (PbUser (user_id (ctx_user c)))"
    and "\<exists>code. pb_state_of j = Some (PbExited code)"
    and "pb_ended_at j \<noteq> None" and "pb_killed_info j \<noteq> None"
    by (auto simp: PbJob_from_def PbState_from_def PbUser_from_def rust_bind_Ret_iff expect_def
        split: job_state.splits option.splits)
  ultimately show ?thesis using c resp r q sent by blast
qed

text \<open>User b kills the job k, whose process ends with code 1.\<close>

definition sample_kill_req :: kill_request where
  "sample_kill_req = KillRequest_new (ctx_of ''b'') 5"

definition sample_dead_k :: "nat job" where
  "sample_dead_k = sample_victim\<lparr>ended_at := Some 10, state := Exited \<lparr>code = Some 1\<rparr>\<rparr>"

lemma sample_kill_run:
  "\<exists>st. JobTracker_wait (JobTracker_track (Job_started (JobId ''k'') \<lparr>user_id = ''b''\<rparr> (Pid 43) 1) 0 0)
     [KillRecv (Some sample_kill_req) (Inr ()) 9, ChildWait (Inr (OsCode 1)) 10]
     = Some (st, [Reply sample_kill_req (Inr sample_dead_k)])"
  by (simp add: JobTracker_wait_def wait_step.simps wait_start_def JobTracker_track_def on_kill_def
        on_child_def set_killed_def set_exited_def loop_top_def sample_dead_k_def sample_victim_def
        sample_kill_req_def KillRequest_new_def ctx_of_def Job_started_def ExitStatus_from_std_def Let_def)

definition sample_kill_reply :: "kill_request \<Rightarrow> (io_error + nat job) oneshot_wait" where
  "sample_kill_reply q = (if q = sample_kill_req then Received (Inr sample_dead_k) else Elapsed)"

definition sample_kill_request :: "pb_kill_request request" where
  "sample_kill_request = sample_request (Some [[98]]) (PbKillRequest ''k'')"

definition sample_kill_response :: "nat kill_response" where
  "sample_kill_response = KillResponse (Some
     \<lparr>pb_id = ''k'', pb_owner = Some (PbUser ''b''), pb_started_at = Some 1, pb_ended_at = Some 10,
      pb_killed_info = Some \<lparr>pb_killed_at = Some 9, pb_killed_user = Some (PbUser ''b'')\<rparr>,
      pb_state_of = Some (PbExited 1)\<rparr>)"

lemma sample_kill_served:
  "serve_kill sample_parse id (MemoryCoordinator_kill (\<lambda>ch q. True) sample_kill_reply 5) (mem (sample_system 2))
     sample_kill_request = Ret (Inr sample_kill_response)"
proof -
  have found: "get_tracker (mem (sample_system 2)) (ctx_of ''b'') (JobId ''k'')
      = Inr (0, Job_started (JobId ''k'') \<lparr>user_id = ''b''\<rparr> (Pid 43) 1)"
    by (simp add: sample_system_def get_tracker_def JobTracker_job_def tracker_inner_of_def
          wait_start_def JobTracker_track_def ctx_of_def Let_def)
  have "MemoryCoordinator_kill (\<lambda>ch q. True) sample_kill_reply 5 (mem (sample_system 2)) (ctx_of ''b'') (JobId ''k'')
      = Inr sample_dead_k"
    by (simp add: MemoryCoordinator_kill_def found JobTracker_kill_def JobTracker_request_def
          sample_kill_reply_def sample_kill_req_def)
  then show ?thesis
    by (simp add: sample_kill_request_def serve_kill_def with_interceptor_accept Store_kill_def respond_def
          PbJob_from_def PbState_from_def PbUser_from_def PbKilled_from_def sample_dead_k_def sample_victim_def
          sample_kill_response_def)
qed

lemma sample_kill_replies:
  assumes "jobs (mem (sample_system 2)) (JobId (kreq_job_id (message sample_kill_request))) = Some r"
  shows "replies_of_task (mem (sample_system 2)) r sample_kill_reply"
proof -
  from assms have r: "r = 0" by (simp add: sample_kill_request_def sample_system_def Let_def)
  obtain st where "JobTracker_wait (JobTracker_track (Job_started (JobId ''k'') \<lparr>user_id = ''b''\<rparr> (Pid 43) 1) 0 0)
     [KillRecv (Some sample_kill_req) (Inr ()) 9, ChildWait (Inr (OsCode 1)) 10]
     = Some (st, [Reply sample_kill_req (Inr sample_dead_k)])"
    using sample_kill_run by blast
  then have run: "task_run (mem (sample_system 2)) r (Job_started (JobId ''k'') \<lparr>user_id = ''b''\<rparr> (Pid 43) 1)
      [Reply sample_kill_req (Inr sample_dead_k)]"
    unfolding task_run_def r
    by (auto simp: JobTracker_job_def tracker_inner_of_def sample_system_def wait_start_def
        JobTracker_track_def Let_def)
  have "\<exists>j0 out. task_run (mem (sample_system 2)) r j0 out \<and> Reply q (Inr j) \<in> set out"
    if "sample_kill_reply q = Received (Inr j)" for q j
  proof -
    from that have "q = sample_kill_req" and "j = sample_dead_k"
      by (simp_all add: sample_kill_reply_def split: if_splits)
    with run show ?thesis by (metis list.set_intros(1))
  qed
  then show ?thesis by (simp add: replies_of_task_def)
qed

lemma answered_kill_has_killed_witness:
  "\<exists>j. sample_kill_response = KillResponse (Some j) \<and> pb_id j = ''k'' \<and> pb_owner j = Some (PbUser ''b'')"
proof -
  have "caller sample_parse sample_kill_request = Some (ctx_of ''b'')"
    by (simp add: sample_kill_request_def)
  with answered_kill_has_killed [OF sample_system_reachable2 sample_kill_served sample_kill_replies]
  show ?thesis by (auto simp: sample_kill_request_def)
qed

end
