(* ===== verification/Relay.thy ===== *)
theory Relay
  imports Frames
begin

text \<open>
  \<open>FrameRelay::relay\<close> of \<open>src/src/proc/coord.rs\<close>: the task between the broadcaster and one
  client of the logs API. It starts with a snapshot of the buffered frames, queues what the
  broadcaster hands it and sends everything to the client in order. \<open>relay_inv\<close> states that
  nothing is lost, duplicated or reordered; the last section that the branch which drains
  the queue is never taken.
\<close>

section \<open>State and steps\<close>

text \<open>
  \<open>RLoop\<close>: in the select loop; \<open>RDrain fs\<close>: in the loop that drains, with \<open>fs\<close> still to
  send; \<open>RDone\<close>: returned.
\<close>

datatype relay_pc = RLoop | RDrain "frame_event list" | RDone

record relay_state =
  r_queue :: "frame_event list"
  to_send :: "frame_event option"
  r_pc :: relay_pc

text \<open>
  \<open>BcastRecv\<close>: \<open>frame_rx.recv()\<close> returned. \<open>ClientSend\<close>: the send to the client returned,
  successfully or because the client is gone. A send that the \<open>select!\<close> cancels leaves
  the frame in \<open>to_send\<close>, to be sent again.
\<close>

datatype relay_event =
    BcastRecv "frame_event option"
  | ClientSend bool

text \<open>The top of every iteration: fetch the next frame to send.\<close>

definition relay_top :: "relay_state \<Rightarrow> relay_state" where
  "relay_top st =
     (case to_send st of
        Some ev \<Rightarrow> st
      | None \<Rightarrow>
          (case r_queue st of
             [] \<Rightarrow> st
           | ev # evs \<Rightarrow> st\<lparr>to_send := Some ev, r_queue := evs\<rparr>))"

definition relay_start :: "frame_event list \<Rightarrow> relay_state" where
  "relay_start fs = relay_top \<lparr>r_queue = fs, to_send = None, r_pc = RLoop\<rparr>"

definition held :: "relay_state \<Rightarrow> frame_event list" where
  "held st = (case to_send st of None \<Rightarrow> [] | Some ev \<Rightarrow> [ev]) @ r_queue st"

text \<open>What follows the select loop when the broadcaster's side has closed.\<close>

definition drain :: "frame_event list \<Rightarrow> relay_state \<Rightarrow> relay_state" where
  "drain fs st = st\<lparr>r_pc := (if fs = [] then RDone else RDrain fs)\<rparr>"

fun relay_step :: "relay_state \<Rightarrow> relay_event \<Rightarrow> (relay_state \<times> frame_event list) option" where
  "relay_step st (BcastRecv frame) =
     (if r_pc st = RLoop then
        (case frame of
           Some ev \<Rightarrow> Some (relay_top (st\<lparr>r_queue := r_queue st @ [ev]\<rparr>), [])
         | None \<Rightarrow> Some (drain (held st) st, []))
      else None)"
| "relay_step st (ClientSend ok) =
     (case r_pc st of
        RLoop \<Rightarrow>
          (case to_send st of
             None \<Rightarrow> None
           | Some ev \<Rightarrow>
               if ok then Some (relay_top (st\<lparr>to_send := None\<rparr>), [ev])
               else Some (st\<lparr>r_pc := RDone\<rparr>, []))
      | RDrain [] \<Rightarrow> None
      | RDrain (ev # evs) \<Rightarrow> Some (drain evs st, if ok then [ev] else [])
      | RDone \<Rightarrow> None)"

definition FrameRelay_relay ::
  "frame_event list \<Rightarrow> relay_event list \<Rightarrow> (relay_state \<times> frame_event list) option" where
  "FrameRelay_relay fs es = run relay_step (relay_start fs) es"

section \<open>Transitions\<close>

lemma relay_top_simps [simp]:
  "held (relay_top st) = held st"
  "r_pc (relay_top st) = r_pc st"
  by (auto simp: relay_top_def held_def split: option.splits list.splits)

lemma held_simps [simp]:
  "held (st\<lparr>r_queue := r_queue st @ [ev]\<rparr>) = held st @ [ev]"
  "held (st\<lparr>r_pc := pc\<rparr>) = held st"
  "to_send st = Some ev \<Longrightarrow> held st = ev # held (st\<lparr>to_send := None\<rparr>)"
  by (auto simp: held_def split: option.splits)

lemma relay_start_simps [simp]:
  "held (relay_start fs) = fs"
  "r_pc (relay_start fs) = RLoop"
  by (simp_all add: relay_start_def) (simp add: held_def)

lemma drain_pc: "r_pc (drain fs st) = (if fs = [] then RDone else RDrain fs)"
  by (simp add: drain_def)

lemma relay_step_cases [consumes 1, case_names queued closed sent client_gone drained]:
  assumes "relay_step st e = Some (st', out)"
  obtains
    ev where "e = BcastRecv (Some ev)" "r_pc st = RLoop"
      "st' = relay_top (st\<lparr>r_queue := r_queue st @ [ev]\<rparr>)" "out = []"
  | "e = BcastRecv None" "r_pc st = RLoop" "st' = drain (held st) st" "out = []"
  | ev where "e = ClientSend True" "r_pc st = RLoop" "to_send st = Some ev"
      "st' = relay_top (st\<lparr>to_send := None\<rparr>)" "out = [ev]"
  | ev where "e = ClientSend False" "r_pc st = RLoop" "to_send st = Some ev"
      "st' = st\<lparr>r_pc := RDone\<rparr>" "out = []"
  | ok ev evs where "e = ClientSend ok" "r_pc st = RDrain (ev # evs)" "st' = drain evs st"
      "out = (if ok then [ev] else [])"
  using assms
  by (cases e; cases "r_pc st")
     (auto split: option.splits if_splits list.splits intro: that)

declare relay_step.simps [simp del]

section \<open>In order, exactly once\<close>

fun bcast_frame :: "relay_event \<Rightarrow> frame_event option" where
  "bcast_frame (BcastRecv frame) = frame"
| "bcast_frame (ClientSend ok) = None"

text \<open>
  The snapshot followed by everything received equals everything sent followed by what is
  held, as long as the client takes what it is sent.
\<close>

definition relay_inv ::
  "frame_event list \<Rightarrow> relay_event list \<Rightarrow> frame_event list \<Rightarrow> relay_state \<Rightarrow> bool" where
  "relay_inv fs es out st \<longleftrightarrow>
     (let total = fs @ pick bcast_frame es; failed = ClientSend False \<in> set es in
      case r_pc st of
        RLoop \<Rightarrow> out @ held st = total \<and> \<not> failed
      | RDrain evs \<Rightarrow> evs \<noteq> [] \<and> subseq (out @ evs) total \<and> (\<not> failed \<longrightarrow> out @ evs = total)
          \<and> BcastRecv None \<in> set es
      | RDone \<Rightarrow> subseq out total \<and> (\<not> failed \<longrightarrow> out = total)
          \<and> (BcastRecv None \<notin> set es \<longrightarrow> failed \<and> prefix out total))"

lemma relay_inv_step:
  assumes "relay_inv fs es out st" and "relay_step st e = Some (st', out')"
  shows "relay_inv fs (es @ [e]) (out @ out') st'"
  using assms(2,1)
proof (cases rule: relay_step_cases)
  case (client_gone ev)
  with assms(1) have "out @ held st = fs @ pick bcast_frame es"
    by (simp add: relay_inv_def)
  then have "prefix out (fs @ pick bcast_frame es)"
    by (rule prefixI [OF sym])
  with client_gone assms(1) show ?thesis
    by (auto simp: relay_inv_def Let_def dest: prefix_imp_subseq)
next
  case (drained ok ev evs)
  then have "ok \<or> subseq (out @ evs) (out @ ev # evs)"
    by (auto intro: list_emb_append_mono)
  with drained assms(1) show ?thesis
    by (auto simp: relay_inv_def Let_def drain_pc intro: subseq_order.trans)
qed (use assms(1) in \<open>auto simp: relay_inv_def Let_def drain_pc\<close>)

interpretation relayer: task relay_step "relay_start fs" "relay_inv fs" for fs
  by unfold_locales (simp add: relay_inv_def, rule relay_inv_step)

lemma FrameRelay_relay_inv: "FrameRelay_relay fs es = Some (st, out) \<Longrightarrow> relay_inv fs es out st"
  unfolding FrameRelay_relay_def by (rule relayer.run_inv)

section \<open>The task keeps its own sender alive\<close>

text \<open>
  \<open>relay\<close> takes \<open>self\<close>, a clone that holds \<open>bcast_tx\<close>, the sender of the very channel it
  receives from; it is dropped when the task returns.
\<close>

definition relay_holds :: "relay_state \<Rightarrow> bool" where
  "relay_holds st \<longleftrightarrow> r_pc st \<noteq> RDone"

definition relay_closes :: "relay_event \<Rightarrow> bool" where
  "relay_closes e \<longleftrightarrow> e = BcastRecv None"

interpretation relay_sender: self_held relay_step relay_closes relay_holds
  by unfold_locales (erule relay_step_cases; simp add: relay_closes_def relay_holds_def)

section \<open>Progress\<close>

text \<open>In the loop the next event is always taken off the queue.\<close>

definition ready :: "relay_state \<Rightarrow> bool" where
  "ready st \<longleftrightarrow> (r_pc st = RLoop \<and> to_send st = None \<longrightarrow> r_queue st = [])"

lemma ready_top: "ready (relay_top st)"
  by (auto simp: ready_def relay_top_def split: option.splits list.splits)

lemma ready_step: "relay_step st e = Some (st', out) \<Longrightarrow> ready st \<Longrightarrow> ready st'"
  by (erule relay_step_cases; simp add: ready_top; simp add: ready_def drain_def)

interpretation relay_ready: task relay_step "relay_start fs" "\<lambda>es out st. ready st" for fs
  by unfold_locales (simp add: relay_start_def ready_top, blast intro: ready_step)

lemma flush_step:
  assumes "ready st" and "r_pc st = RLoop" and "held st = ev # evs"
  obtains st' where "relay_step st (ClientSend True) = Some (st', [ev])"
    and "ready st'" and "r_pc st' = RLoop" and "held st' = evs"
proof -
  from assms have "to_send st = Some ev" by (auto simp: ready_def held_def split: option.splits)
  moreover have "held (st\<lparr>to_send := None\<rparr>) = evs"
    using assms(3) calculation by simp
  ultimately show thesis
    using assms(2) by (intro that [of "relay_top (st\<lparr>to_send := None\<rparr>)"])
      (simp_all add: relay_step.simps ready_top)
qed

lemma flush:
  "ready st \<Longrightarrow> r_pc st = RLoop \<Longrightarrow>
   \<exists>st'. run relay_step st (replicate (length (held st)) (ClientSend True)) = Some (st', held st)
     \<and> r_pc st' = RLoop \<and> held st' = []"
proof (induction "held st" arbitrary: st)
  case Nil
  then show ?case by (intro exI [of _ st]) (simp flip: Nil(1))
next
  case (Cons ev evs)
  obtain st1 where st1: "relay_step st (ClientSend True) = Some (st1, [ev])" "ready st1"
    "r_pc st1 = RLoop" "held st1 = evs"
    by (rule flush_step [OF Cons.prems Cons.hyps(2) [symmetric]])
  from Cons.hyps(1) [of st1] st1 obtain st2
    where "run relay_step st1 (replicate (length evs) (ClientSend True)) = Some (st2, evs)"
      and "r_pc st2 = RLoop" and "held st2 = []" by auto
  with st1 show ?case by (auto simp flip: Cons.hyps(2))
qed

section \<open>Properties\<close>

text \<open>
  C22: the relay passes on its snapshot and then every event it receives, in order and exactly
  once; whatever the order of receiving and sending was, what has not been sent is held. It
  returns exactly when the client has gone: the channel from the broadcaster never closes,
  since the task itself holds a sender of it, so the loop that drains the queue is dead code.
\<close>

theorem relay_in_order_exactly_once:
  assumes run: "FrameRelay_relay fs es = Some (st, out)"
    and mpsc: "closed_only_unheld relay_step relay_closes relay_holds (relay_start fs) es"
  shows "(r_pc st = RDone \<longleftrightarrow> ClientSend False \<in> set es)
    \<and> (r_pc st \<noteq> RDone \<longrightarrow> r_pc st = RLoop \<and> out @ held st = fs @ pick bcast_frame es)
    \<and> prefix out (fs @ pick bcast_frame es)"
proof -
  from relay_sender.never_closes [OF run [unfolded FrameRelay_relay_def] mpsc]
  have "BcastRecv None \<notin> set es" by (auto simp: list_all_iff relay_closes_def)
  with FrameRelay_relay_inv [OF run]
  have "(r_pc st = RLoop \<and> ClientSend False \<notin> set es \<and> out @ held st = fs @ pick bcast_frame es)
    \<or> (r_pc st = RDone \<and> ClientSend False \<in> set es \<and> prefix out (fs @ pick bcast_frame es))"
    by (auto simp: relay_inv_def Let_def split: relay_pc.splits)
  then show ?thesis by (auto intro: prefixI [OF sym])
qed

definition sample_relayed :: "relay_event list" where
  "sample_relayed = [BcastRecv (Some EofEv), ClientSend True]"

lemma sample_relay_run:
  "FrameRelay_relay [FrameEv (Frame_new Stdout [7])] sample_relayed =
     Some (\<lparr>r_queue = [], to_send = Some EofEv, r_pc = RLoop\<rparr>, [FrameEv (Frame_new Stdout [7])])"
  by (simp add: FrameRelay_relay_def sample_relayed_def relay_step.simps relay_start_def relay_top_def)

lemma sample_relay_open:
  "closed_only_unheld relay_step relay_closes relay_holds
     (relay_start [FrameEv (Frame_new Stdout [7])]) sample_relayed"
  by (rule closed_only_unheldI) (simp add: sample_relayed_def relay_closes_def)

lemma relay_in_order_exactly_once_witness:
  "prefix [FrameEv (Frame_new Stdout [7])] ([FrameEv (Frame_new Stdout [7])] @ pick bcast_frame sample_relayed)"
  using relay_in_order_exactly_once [OF sample_relay_run sample_relay_open] by blast

text \<open>
  A relay whose client takes what it is sent delivers everything: as many sends as it
  holds events bring out exactly these, and nothing is left.
\<close>

lemma relay_delivers_what_it_holds:
  assumes run: "FrameRelay_relay fs es = Some (st, out)"
    and mpsc: "closed_only_unheld relay_step relay_closes relay_holds (relay_start fs) es"
    and client: "ClientSend False \<notin> set es"
  shows "\<exists>st'. FrameRelay_relay fs (es @ replicate (length (held st)) (ClientSend True))
      = Some (st', fs @ pick bcast_frame es) \<and> held st' = []"
proof -
  from relay_sender.never_closes [OF run [unfolded FrameRelay_relay_def] mpsc]
  have "BcastRecv None \<notin> set es" by (auto simp: list_all_iff relay_closes_def)
  with FrameRelay_relay_inv [OF run] client
  have pc: "r_pc st = RLoop" and out: "out @ held st = fs @ pick bcast_frame es"
    by (auto simp: relay_inv_def Let_def split: relay_pc.splits)
  have "ready st" using run unfolding FrameRelay_relay_def by (rule relay_ready.run_inv)
  from flush [OF this pc] obtain st'
    where "run relay_step st (replicate (length (held st)) (ClientSend True)) = Some (st', held st)"
      and "held st' = []" by blast
  with run out show ?thesis by (simp add: FrameRelay_relay_def run_append)
qed

lemma relay_delivers_sample:
  "\<exists>st'. FrameRelay_relay [FrameEv (Frame_new Stdout [7])]
      (sample_relayed @ replicate (length (held \<lparr>r_queue = [], to_send = Some EofEv, r_pc = RLoop\<rparr>)) (ClientSend True))
      = Some (st', [FrameEv (Frame_new Stdout [7])] @ pick bcast_frame sample_relayed) \<and> held st' = []"
  by (rule relay_delivers_what_it_holds [OF sample_relay_run sample_relay_open])
     (simp add: sample_relayed_def)

end
