(* ===== verification/Client.thy ===== *)
theory Client
  imports Pb Grpc
begin

text \<open>
  The command line client, \<open>src/src/bin/client.rs\<close>: what each subcommand makes of the
  server's answer. \<open>logs_step\<close> is the loop that copies a log stream to the standard
  streams. How the client connects and what it requests is the subject of \<open>Startup\<close>.
\<close>

section \<open>How a command ends\<close>

text \<open>
  \<open>Done\<close>: success, having printed the lines; \<open>Exit1 st\<close>: \<open>must_ok\<close> exits with code 1;
  \<open>Bail msg\<close>: \<open>main\<close> returns an error with that context.
\<close>

datatype 'a cli = Done 'a | Exit1 status | Bail string

primrec cli_bind :: "'a cli \<Rightarrow> ('a \<Rightarrow> 'b cli) \<Rightarrow> 'b cli" where
  "cli_bind (Done x) f = f x"
| "cli_bind (Exit1 st) f = Exit1 st"
| "cli_bind (Bail msg) f = Bail msg"

definition must_ok :: "status + 'a \<Rightarrow> 'a cli" where
  "must_ok res = (case res of Inr v \<Rightarrow> Done v | Inl st \<Rightarrow> Exit1 st)"

definition context_opt :: "string \<Rightarrow> 'a option \<Rightarrow> 'a cli" where
  "context_opt msg x = (case x of None \<Rightarrow> Bail msg | Some v \<Rightarrow> Done v)"

section \<open>Jobs\<close>

definition state_line :: "pb_state \<Rightarrow> string" where
  "state_line s =
     (case s of
        PbRunning p \<Rightarrow> ''Running pid='' @ show_nat (unat p)
      | PbExited c \<Rightarrow> ''Exited code='' @ show_i32 c
      | PbCrashed sig msg \<Rightarrow> ''Crashed signal='' @ show_i32 sig @ '' msg='' @ msg)"

definition print_job :: "'ts pb_job \<Rightarrow> string cli" where
  "print_job job =
     cli_bind (context_opt ''no job state in reponse'' (pb_state_of job)) (\<lambda>s. Done (state_line s))"

definition client_run :: "status + 'ts spawn_response \<Rightarrow> string cli" where
  "client_run res =
     cli_bind (must_ok res) (\<lambda>resp.
     cli_bind (context_opt ''no job in response'' (sresp_job resp)) (\<lambda>job. Done (pb_id job)))"

definition client_ps :: "status + 'ts ps_response \<Rightarrow> string cli" where
  "client_ps res =
     cli_bind (must_ok res) (\<lambda>resp.
     cli_bind (context_opt ''no job in response'' (presp_job resp)) print_job)"

definition client_kill :: "status + 'ts kill_response \<Rightarrow> string cli" where
  "client_kill res =
     cli_bind (must_ok res) (\<lambda>resp.
     cli_bind (context_opt ''no job in response'' (kresp_job resp)) print_job)"

section \<open>Logs\<close>

text \<open>
  \<open>Message res w\<close>: \<open>stream.message()\<close> returned \<open>res\<close>; for a frame, what \<open>write_all\<close> and
  \<open>flush\<close> did with it. When either fails, some first bytes have been written.
\<close>

datatype write_result = Written | WriteFailed nat | FlushFailed nat

datatype client_event = Message "status + log_frame option" write_result

datatype client_pc = Streaming | Stopped "unit cli"

text \<open>Effects: bytes written to a standard stream.\<close>

datatype client_out = Wrote stream_kind "u8 list"

definition write_frame :: "stream_kind \<Rightarrow> u8 list \<Rightarrow> write_result \<Rightarrow> client_pc \<times> client_out list" where
  "write_frame k bs w =
     (case w of
        Written \<Rightarrow> (Streaming, [Wrote k bs])
      | WriteFailed n \<Rightarrow>
          (Stopped (Bail (case k of Stdout \<Rightarrow> ''write to stdout'' | Stderr \<Rightarrow> ''write to stderr'')),
           [Wrote k (take n bs)])
      | FlushFailed n \<Rightarrow>
          (Stopped (Bail (case k of Stdout \<Rightarrow> ''flush stdout'' | Stderr \<Rightarrow> ''flush stderr'')),
           [Wrote k (take n bs)]))"

text \<open>\<open>kind\<close> is the accessor that prost derives for the frame's kind.\<close>

fun logs_step ::
  "(i32 \<Rightarrow> log_frame_kind) \<Rightarrow> client_pc \<Rightarrow> client_event \<Rightarrow> (client_pc \<times> client_out list) option" where
  "logs_step kind Streaming (Message (Inl st) w) = Some (Stopped (Exit1 st), [])"
| "logs_step kind Streaming (Message (Inr None) w) = Some (Stopped (Done ()), [])"
| "logs_step kind Streaming (Message (Inr (Some f)) w) =
     Some (case kind (lf_kind f) of
             KindStdout \<Rightarrow> write_frame Stdout (lf_bs f) w
           | KindStderr \<Rightarrow> write_frame Stderr (lf_bs f) w)"
| "logs_step kind (Stopped res) ev = None"

definition client_logs ::
  "(i32 \<Rightarrow> log_frame_kind) \<Rightarrow> client_event list \<Rightarrow> (client_pc \<times> client_out list) option" where
  "client_logs kind es = run (logs_step kind) Streaming es"

text \<open>The frames received, the bytes of one stream among them, the bytes written.\<close>

fun client_frame :: "client_event \<Rightarrow> log_frame option" where
  "client_frame (Message (Inr f) w) = f"
| "client_frame (Message (Inl st) w) = None"

definition lf_bytes :: "(i32 \<Rightarrow> log_frame_kind) \<Rightarrow> stream_kind \<Rightarrow> log_frame list \<Rightarrow> u8 list" where
  "lf_bytes kind k lfs = concat (map lf_bs (filter (\<lambda>f. kind (lf_kind f) = LogFrameKind_from k) lfs))"

fun wrote :: "stream_kind \<Rightarrow> client_out \<Rightarrow> u8 list" where
  "wrote k (Wrote k' bs) = (if k' = k then bs else [])"

definition written :: "stream_kind \<Rightarrow> client_out list \<Rightarrow> u8 list" where
  "written k out = concat (map (wrote k) out)"

text \<open>
  The loop writes the bytes of the frames it receives, each to its stream, and all of them
  unless writing failed.
\<close>

definition no_more :: "client_event \<Rightarrow> bool" where
  "no_more e \<longleftrightarrow> (\<exists>w. e = Message (Inr None) w)"

definition server_error :: "client_event \<Rightarrow> bool" where
  "server_error e \<longleftrightarrow> (\<exists>st w. e = Message (Inl st) w)"

definition logs_inv ::
  "(i32 \<Rightarrow> log_frame_kind) \<Rightarrow> client_event list \<Rightarrow> client_out list \<Rightarrow> client_pc \<Rightarrow> bool" where
  "logs_inv kind es out pc \<longleftrightarrow>
     (\<forall>k. prefix (written k out) (lf_bytes kind k (pick client_frame es)))
     \<and> ((\<forall>msg. pc \<noteq> Stopped (Bail msg)) \<longrightarrow>
          (\<forall>k. written k out = lf_bytes kind k (pick client_frame es)))
     \<and> (pc = Stopped (Done ()) \<longleftrightarrow> list_ex no_more es)
     \<and> ((\<exists>st. pc = Stopped (Exit1 st)) \<longleftrightarrow> list_ex server_error es)"

lemma written_simps [simp]:
  "written k [] = []"
  "written k (Wrote k' bs # out) = (if k' = k then bs else []) @ written k out"
  "written k (out @ out') = written k out @ written k out'"
  by (simp_all add: written_def)

lemma lf_bytes_simps [simp]:
  "lf_bytes kind k [] = []"
  "lf_bytes kind k (f # fs) = (if kind (lf_kind f) = LogFrameKind_from k then lf_bs f else []) @ lf_bytes kind k fs"
  "lf_bytes kind k (fs @ gs) = lf_bytes kind k fs @ lf_bytes kind k gs"
  by (simp_all add: lf_bytes_def)

lemma no_more_simps [simp]:
  "no_more (Message (Inr None) w)" "\<not> no_more (Message (Inr (Some f)) w)" "\<not> no_more (Message (Inl st) w)"
  by (simp_all add: no_more_def)

lemma server_error_simps [simp]: "server_error (Message (Inl st) w)" "\<not> server_error (Message (Inr f) w)"
  by (simp_all add: server_error_def)

lemma LogFrameKind_from_eq [simp]:
  "KindStdout = LogFrameKind_from k \<longleftrightarrow> k = Stdout" "KindStderr = LogFrameKind_from k \<longleftrightarrow> k = Stderr"
  "LogFrameKind_from k = KindStdout \<longleftrightarrow> k = Stdout" "LogFrameKind_from k = KindStderr \<longleftrightarrow> k = Stderr"
  by (cases k; simp)+

lemma logs_inv_frame:
  assumes inv: "logs_inv kind es out Streaming"
    and w: "write_frame k0 (lf_bs f) w = (pc', out')" and k0: "kind (lf_kind f) = LogFrameKind_from k0"
  shows "logs_inv kind (es @ [Message (Inr (Some f)) w]) (out @ out') pc'"
proof -
  have eq: "LogFrameKind_from k0 = LogFrameKind_from k \<longleftrightarrow> k0 = k" for k
    by (cases k0; cases k) simp_all
  show ?thesis
    using inv w
    by (cases w) (auto simp: logs_inv_def write_frame_def k0 eq take_is_prefix)
qed

lemma logs_inv_step:
  assumes inv: "logs_inv kind es out pc" and step: "logs_step kind pc e = Some (pc', out')"
  shows "logs_inv kind (es @ [e]) (out @ out') pc'"
  using step
proof (cases "(kind, pc, e)" rule: logs_step.cases)
  case (3 kind' f w)
  then show ?thesis
    using inv step by (cases "kind (lf_kind f)") (auto intro!: logs_inv_frame)
qed (use inv in \<open>auto simp: logs_inv_def\<close>)

interpretation log_client: task "logs_step kind" Streaming "logs_inv kind" for kind
  by unfold_locales (simp add: logs_inv_def, rule logs_inv_step)

lemma client_logs_inv: "client_logs kind es = Some (pc, out) \<Longrightarrow> logs_inv kind es out pc"
  unfolding client_logs_def by (rule log_client.run_inv)

lemma kind_roundtrip: "kind_getter kind \<Longrightarrow> kind (to_log_frame_kind k) = LogFrameKind_from k"
proof -
  assume "kind_getter kind"
  then have "kind (LogFrameKind_number (LogFrameKind_from k)) = LogFrameKind_from k"
    by (simp add: kind_getter_def)
  then show ?thesis by (cases k) simp_all
qed

lemma LogFrameKind_from_inj: "LogFrameKind_from k = LogFrameKind_from k' \<longleftrightarrow> k = k'"
  by (cases k; cases k') simp_all

lemma lf_bytes_LogFrame:
  "kind_getter kind \<Longrightarrow> lf_bytes kind k (map LogFrame_from fs) = kind_bytes k fs"
  by (induction fs) (simp_all add: LogFrame_from_def kind_roundtrip LogFrameKind_from_inj)

section \<open>Properties\<close>

text \<open>
  The client writes the bytes of the frames it receives, each to the standard stream it
  came from, in order, and nothing else; unless writing fails it writes all of them. It
  succeeds exactly when the server ended the stream, and exits with an error exactly when
  the server sent one.
\<close>

lemma client_copies_the_frames:
  assumes run: "client_logs kind es = Some (pc, out)"
  shows "prefix (written k out) (lf_bytes kind k (pick client_frame es))
    \<and> ((\<forall>msg. pc \<noteq> Stopped (Bail msg)) \<longrightarrow> written k out = lf_bytes kind k (pick client_frame es))
    \<and> (pc = Stopped (Done ()) \<longleftrightarrow> list_ex no_more es)
    \<and> ((\<exists>st. pc = Stopped (Exit1 st)) \<longleftrightarrow> list_ex server_error es)"
  using client_logs_inv [OF run] by (simp_all add: logs_inv_def)

definition sample_kind :: "i32 \<Rightarrow> log_frame_kind" where
  "sample_kind n = (if n = 1 then KindStderr else KindStdout)"

definition sample_messages :: "client_event list" where
  "sample_messages =
     [Message (Inr (Some \<lparr>lf_kind = 0, lf_bs = [104, 105]\<rparr>)) Written,
      Message (Inr (Some \<lparr>lf_kind = 1, lf_bs = [33]\<rparr>)) Written, Message (Inr None) Written]"

lemma sample_copy:
  "client_logs sample_kind sample_messages =
     Some (Stopped (Done ()), [Wrote Stdout [104, 105], Wrote Stderr [33]])"
  by (simp add: client_logs_def sample_messages_def sample_kind_def write_frame_def)

lemma client_copies_the_frames_sample:
  "prefix (written Stderr [Wrote Stdout [104, 105], Wrote Stderr [33]])
     (lf_bytes sample_kind Stderr (pick client_frame sample_messages))"
  by (rule conjunct1 [OF client_copies_the_frames [OF sample_copy]])

lemma unat_eq: "unat v = unat w \<Longrightarrow> v = w"
  by (rule unsigned_word_eqI)

lemma state_line_inj:
  assumes "state_line s = state_line s'"
    and "\<And>sig msg. s \<noteq> PbCrashed sig msg" and "\<And>sig msg. s' \<noteq> PbCrashed sig msg"
  shows "s = s'"
  using assms
  by (cases s; cases s') (auto simp: state_line_def dest: show_nat_inj show_i32_inj unat_eq)

text \<open>
  C38: what \<open>ps\<close> and \<open>kill\<close> print tells the state of the job: two records that the server can
  report and for which the client prints the same line are in the same state, with the same
  process id or the same exit code. The client never prints a crash.
\<close>

theorem printed_line_tells_the_state:
  assumes a: "PbJob_from ts a = Ret ja" and b: "PbJob_from ts b = Ret jb"
    and same: "client_ps (Inr (PsResponse (Some ja))) = client_ps (Inr (PsResponse (Some jb)))"
  shows "state a = state b
    \<and> (\<exists>line. client_ps (Inr (PsResponse (Some ja))) = Done line
         \<and> client_kill (Inr (KillResponse (Some ja))) = Done line \<and> line \<noteq> [] \<and> hd line \<noteq> CHR ''C'')"
proof -
  have line: "\<exists>s. PbState_from (state x) = Ret s \<and> client_ps (Inr (PsResponse (Some jx))) = Done (state_line s)
      \<and> client_kill (Inr (KillResponse (Some jx))) = Done (state_line s)"
    if "PbJob_from ts x = Ret jx" for x jx
    using that
    by (auto simp: PbJob_from_def rust_bind_Ret_iff client_ps_def client_kill_def must_ok_def
          context_opt_def print_job_def)
  have no_crash: "s \<noteq> PbCrashed sig msg" if "PbState_from x = Ret s" for x s sig msg
    using that by (auto simp: PbState_from_def rust_bind_Ret_iff split: job_state.splits)
  have inj: "x = y" if "PbState_from x = Ret s" and "PbState_from y = Ret s" for x y s
    using that
    by (auto simp: PbState_from_def rust_bind_Ret_iff expect_def pid.expand exit_status.equality
          split: job_state.splits option.splits)
  from line [OF a] obtain sa where sa: "PbState_from (state a) = Ret sa"
    "client_ps (Inr (PsResponse (Some ja))) = Done (state_line sa)"
    "client_kill (Inr (KillResponse (Some ja))) = Done (state_line sa)" by blast
  from line [OF b] obtain sb where sb: "PbState_from (state b) = Ret sb"
    "client_ps (Inr (PsResponse (Some jb))) = Done (state_line sb)" by blast
  from same sa(2) sb(2) have "state_line sa = state_line sb" by simp
  then have "sa = sb" using no_crash [OF sa(1)] no_crash [OF sb(1)] by (rule state_line_inj)
  with inj sa(1) sb(1) have "state a = state b" by blast
  moreover from sa no_crash [OF sa(1)] have "\<exists>line. client_ps (Inr (PsResponse (Some ja))) = Done line
      \<and> client_kill (Inr (KillResponse (Some ja))) = Done line \<and> line \<noteq> [] \<and> hd line \<noteq> CHR ''C''"
    by (cases sa) (auto simp: state_line_def)
  ultimately show ?thesis by blast
qed

lemma printed_line_tells_the_state_witness:
  "\<exists>line. client_ps (Inr (PsResponse (Some sample_pb_job))) = Done line
      \<and> client_kill (Inr (KillResponse (Some sample_pb_job))) = Done line \<and> line \<noteq> [] \<and> hd line \<noteq> CHR ''C''"
proof -
  have "PbJob_from id sample_job = Ret sample_pb_job"
    by (simp add: PbJob_from_def PbState_from_def PbUser_from_def sample_pb_job_def sample_job_def)
  from printed_line_tells_the_state [OF this this refl] show ?thesis by blast
qed

end
