(* ===== verification/EndToEnd.thy ===== *)
theory EndToEnd
  imports Tracker Relay Broadcaster Client
begin

text \<open>
  The whole way of a log stream: two \<open>consume_output\<close> tasks, the tracker's \<open>wait\<close>, the
  broadcaster, one relay, the task behind the response stream and the client. Each task runs
  on its own events; neighbours are joined by channels, whose documented contract is the
  hypothesis \<open>wired\<close>. \<open>live\<close> adds what holds when nobody went away early.
\<close>

section \<open>The tasks and channels of one log stream\<close>

record 'dt log_path =
  lp_out_reads :: "consume_event list"
  lp_err_reads :: "consume_event list"
  lp_inner :: "'dt tracker_inner"
  lp_wait :: "'dt wait_event list"
  lp_bcast :: "bcast_event list"
  lp_relay :: nat
  lp_snapshot :: "frame_event list"
  lp_relayed :: "relay_event list"
  lp_fwd :: "forward_event list"
  lp_client :: "client_event list"

primrec reads :: "'dt log_path \<Rightarrow> stream_kind \<Rightarrow> consume_event list" where
  "reads p Stdout = lp_out_reads p"
| "reads p Stderr = lp_err_reads p"

definition effects :: "('s \<times> 'o list) option \<Rightarrow> 'o list" where
  "effects res = (case res of None \<Rightarrow> [] | Some (s, out) \<Rightarrow> out)"

definition final :: "('s \<times> 'o list) option \<Rightarrow> 's option" where
  "final res = map_option fst res"

abbreviation "consumed p k \<equiv> consume_output k (reads p k)"
abbreviation "waited p \<equiv> JobTracker_wait (lp_inner p) (lp_wait p)"
abbreviation "bcasted p \<equiv> FrameBroadcaster_bcast (lp_bcast p)"
abbreviation "relayed p \<equiv> FrameRelay_relay (lp_snapshot p) (lp_relayed p)"
abbreviation "forwarded err_fmt p \<equiv> Store_forward err_fmt (lp_fwd p)"
abbreviation "copied kind p \<equiv> client_logs kind (lp_client p)"

definition all_run ::
  "(i32 \<Rightarrow> log_frame_kind) \<Rightarrow> (tracker_error \<Rightarrow> string) \<Rightarrow> 'dt log_path \<Rightarrow> bool" where
  "all_run kind err_fmt p \<longleftrightarrow>
     list_all (\<lambda>k. consumed p k \<noteq> None \<and> list_all read_within (reads p k)) [Stdout, Stderr]
     \<and> waited p \<noteq> None \<and> bcasted p \<noteq> None \<and> relayed p \<noteq> None
     \<and> forwarded err_fmt p \<noteq> None \<and> copied kind p \<noteq> None"

fun stream_item :: "stream_kind \<Rightarrow> 'dt wait_event \<Rightarrow> (tracker_error + frame) option" where
  "stream_item k (StreamRecv k' ev sent) = (if k' = k then ev else None)"
| "stream_item k (KillRecv req res now) = None"
| "stream_item k (ChildWait res now) = None"
| "stream_item k (LastSend sent) = None"

fun item_of :: "client_event \<Rightarrow> (status + log_frame) option" where
  "item_of (Message (Inl st) w) = Some (Inl st)"
| "item_of (Message (Inr None) w) = None"
| "item_of (Message (Inr (Some f)) w) = Some (Inr f)"

definition wired ::
  "(tracker_error \<Rightarrow> string) \<Rightarrow> 'dt log_path \<Rightarrow> bool" where
  "wired err_fmt p \<longleftrightarrow>
     list_all (\<lambda>k. fifo (effects (consumed p k)) (pick (stream_item k) (lp_wait p))) [Stdout, Stderr]
     \<and> fifo (pick to_bcast (effects (waited p))) (pick source_event (lp_bcast p))
     \<and> StartRelay (lp_relay p) (lp_snapshot p) \<in> set (effects (bcasted p))
     \<and> fifo (pick (offered_by (lp_relay p)) (effects (bcasted p))) (pick bcast_frame (lp_relayed p))
     \<and> closed_only_unheld relay_step relay_closes relay_holds (relay_start (lp_snapshot p)) (lp_relayed p)
     \<and> fifo (effects (relayed p)) (pick log_event (lp_fwd p))
     \<and> fifo (effects (forwarded err_fmt p)) (pick item_of (lp_client p))"

section \<open>Stage by stage\<close>

text \<open>The frames the tracker has received from its two streams, in the order of the merge.\<close>

definition merged :: "'dt log_path \<Rightarrow> frame list" where
  "merged p = pick received_frame (lp_wait p)"

definition child_bytes :: "'dt log_path \<Rightarrow> stream_kind \<Rightarrow> u8 list" where
  "child_bytes p k = concat (chunks (reads p k))"

definition item_bytes :: "tracker_error + frame \<Rightarrow> u8 list" where
  "item_bytes x = (case x of Inl err \<Rightarrow> [] | Inr f \<Rightarrow> frame_bs f)"

lemma item_bytes_simps [simp]: "item_bytes (Inl err) = []" "item_bytes (Inr f) = frame_bs f"
  by (simp_all add: item_bytes_def)

lemma item_bytes_sent [simp]: "concat (map item_bytes (sent_frames k cs)) = concat cs"
  by (induction cs) auto

lemma effects_run: "res \<noteq> None \<Longrightarrow> \<exists>s. res = Some (s, effects res)"
  by (auto simp: effects_def)

lemma all_streams: "list_all P [Stdout, Stderr] \<longleftrightarrow> (\<forall>k. P k)"
  by (auto intro: stream_kind.exhaust) (metis stream_kind.exhaust)

text \<open>What one stream's task has put into its channel.\<close>

lemma consumed_items:
  assumes "all_run kind err_fmt p"
  shows "\<exists>cs. prefix cs (chunks (reads p k))
    \<and> (effects (consumed p k) = sent_frames k cs
       \<or> (\<exists>err. effects (consumed p k) = sent_frames k cs @ [Inl (ReadOutput k err)]))"
proof -
  from assms have "\<forall>k. consumed p k \<noteq> None \<and> list_all read_within (reads p k)"
    unfolding all_run_def all_streams by (rule conjunct1)
  then have "consumed p k \<noteq> None" and "list_all read_within (reads p k)" by simp_all
  then show ?thesis by (auto simp: effects_def dest: consume_output_frames)
qed

lemma consumed_kind:
  assumes "all_run kind err_fmt p" and "Inr f \<in> set (effects (consumed p k))"
  shows "frame_kind f = k"
  using consumed_items [OF assms(1), of k] assms(2) by (auto simp: sent_frames_def)

lemma consumed_bytes:
  assumes "all_run kind err_fmt p"
  shows "prefix (concat (map item_bytes (effects (consumed p k)))) (child_bytes p k)"
proof -
  from consumed_items [OF assms] obtain cs where cs: "prefix cs (chunks (reads p k))"
    and "effects (consumed p k) = sent_frames k cs
       \<or> (\<exists>err. effects (consumed p k) = sent_frames k cs @ [Inl (ReadOutput k err)])"
    by blast
  then have "concat (map item_bytes (effects (consumed p k))) = concat cs"
    by auto
  with cs show ?thesis by (simp add: child_bytes_def prefix_concat)
qed

text \<open>The merge keeps the bytes of each stream apart.\<close>

lemma merged_bytes:
  assumes kinds: "\<And>k f. Inr f \<in> set (pick (stream_item k) es) \<Longrightarrow> frame_kind f = k"
  shows "kind_bytes k (pick received_frame es) = concat (map item_bytes (pick (stream_item k) es))"
  using assms
proof (induction es)
  case Nil
  then show ?case by simp
next
  case (Cons e es)
  have IH: "kind_bytes k (pick received_frame es) = concat (map item_bytes (pick (stream_item k) es))"
    by (rule Cons.IH) (rule Cons.prems, unfold set_pick, auto)
  show ?case
  proof (cases "\<exists>k' f sent. e = StreamRecv k' (Some (Inr f)) sent")
    case True
    then obtain k' f sent where e: "e = StreamRecv k' (Some (Inr f)) sent" by blast
    with Cons.prems [of f k'] have "frame_kind f = k'" by simp
    with IH e show ?thesis by auto
  next
    case False
    then have "received_frame e = None" by (cases e rule: received_frame.cases) auto
    then have left: "kind_bytes k (pick received_frame (e # es)) = kind_bytes k (pick received_frame es)"
      by simp
    from False have "stream_item k e = None \<or> (\<exists>err. stream_item k e = Some (Inl err))"
      by (cases e rule: received_frame.cases) auto
    then have "concat (map item_bytes (pick (stream_item k) (e # es)))
        = concat (map item_bytes (pick (stream_item k) es))"
      by (elim disjE exE) simp_all
    with left IH show ?thesis by simp
  qed
qed

lemma merged_items:
  assumes run: "all_run kind err_fmt p" and wired: "wired err_fmt p"
  shows "kind_bytes k (merged p) = concat (map item_bytes (pick (stream_item k) (lp_wait p)))"
    and "prefix (kind_bytes k (merged p)) (child_bytes p k)"
proof -
  have fifo: "fifo (effects (consumed p k')) (pick (stream_item k') (lp_wait p))" for k'
    using wired unfolding wired_def all_streams by blast
  then show eq: "kind_bytes k (merged p) = concat (map item_bytes (pick (stream_item k) (lp_wait p)))"
    unfolding merged_def
    by (intro merged_bytes consumed_kind [OF run]) (auto simp: fifo_def dest: set_mono_prefix)
  note eq
  also have "prefix \<dots> (concat (map item_bytes (effects (consumed p k))))"
    using fifo [of k] by (auto simp: fifo_def prefix_def)
  also have "prefix \<dots> (child_bytes p k)" by (rule consumed_bytes [OF run])
  finally show "prefix (kind_bytes k (merged p)) (child_bytes p k)" .
qed

section \<open>From the tracker to the client\<close>

text \<open>
  Downstream of the merge everything is a list of events or items; each stage passes on a
  prefix of what it was given.
\<close>

lemma relay_events:
  assumes run: "all_run kind err_fmt p" and wired: "wired err_fmt p"
  shows "prefix (effects (relayed p)) (pick to_bcast (effects (waited p)))"
proof -
  let ?r = "lp_relay p" and ?out = "effects (bcasted p)"
  from run obtain bst where b: "bcasted p = Some (bst, ?out)"
    unfolding all_run_def using effects_run by blast
  from run obtain rst where r: "relayed p = Some (rst, effects (relayed p))"
    unfolding all_run_def using effects_run by blast
  from wired have start: "StartRelay ?r (lp_snapshot p) \<in> set ?out"
    and held: "closed_only_unheld relay_step relay_closes relay_holds (relay_start (lp_snapshot p)) (lp_relayed p)"
    and chan: "fifo (pick (offered_by ?r) ?out) (pick bcast_frame (lp_relayed p))"
    by (simp_all add: wired_def)
  from relay_sender.never_closes [OF r [unfolded FrameRelay_relay_def] held]
  have "BcastRecv None \<notin> set (lp_relayed p)"
    by (auto simp: list_all_iff relay_closes_def)
  with FrameRelay_relay_inv [OF r]
  have "prefix (effects (relayed p)) (lp_snapshot p @ pick bcast_frame (lp_relayed p))"
    by (auto simp: relay_inv_def Let_def intro: prefixI [OF sym] split: relay_pc.splits)
  also have "prefix \<dots> (lp_snapshot p @ pick (offered_by ?r) ?out)"
    using chan by (simp add: fifo_def)
  also have "\<dots> = given ?r ?out"
    using FrameBroadcaster_bcast_snapshot [OF b] start by (simp add: snapshot_inv_def)
  also have "prefix \<dots> (pick source_event (lp_bcast p))"
    using FrameBroadcaster_bcast_inv [OF b]
    by (auto simp: bcast_inv_def stream_inv_def relay_stream_def dest!: spec [of _ ?r] split: if_splits)
  also have "prefix \<dots> (pick to_bcast (effects (waited p)))"
    using wired by (simp add: wired_def fifo_def)
  finally show ?thesis .
qed

lemma log_events:
  assumes "all_run kind err_fmt p" and wired: "wired err_fmt p"
  shows "prefix (pick log_event (lp_fwd p)) (pick to_bcast (effects (waited p)))"
  using relay_events [OF assms] wired prefix_order.trans by (auto simp: wired_def fifo_def)

text \<open>The frames among the events, and among the items of the response stream.\<close>

definition item_frame :: "status + log_frame \<Rightarrow> log_frame option" where
  "item_frame x = (case x of Inl st \<Rightarrow> None | Inr f \<Rightarrow> Some f)"

lemma item_frame_items [simp]: "pick item_frame (items fs) = map LogFrame_from fs"
  by (induction fs) (simp_all add: item_frame_def)

lemma item_frame_Inl [simp]: "item_frame (Inl st) = None"
  by (simp add: item_frame_def)

lemma event_frame_map [simp]: "pick event_frame (map FrameEv fs) = fs"
  by (induction fs) simp_all

lemma client_frames_eq: "pick client_frame es = pick item_frame (pick item_of es)"
proof (induction es)
  case Nil
  then show ?case by simp
next
  case (Cons e es)
  then show ?case by (cases e rule: item_of.cases) (simp_all add: item_frame_def)
qed

lemma tracker_frames:
  assumes run: "all_run kind err_fmt p"
  shows "prefix (pick event_frame (pick to_bcast (effects (waited p)))) (merged p)"
proof -
  from run obtain wst where w: "waited p = Some (wst, effects (waited p))"
    unfolding all_run_def using effects_run by blast
  from JobTracker_wait_invs(1) [OF w] show ?thesis
    by (auto simp: frames_inv_def merged_def final_event_def split: if_splits option.splits)
qed

lemma forward_frames:
  assumes run: "all_run kind err_fmt p"
  obtains fs where "pick item_frame (effects (forwarded err_fmt p)) = map LogFrame_from fs"
    and "prefix fs (pick event_frame (pick log_event (lp_fwd p)))"
proof -
  from run obtain fpc where f: "forwarded err_fmt p = Some (fpc, effects (forwarded err_fmt p))"
    unfolding all_run_def using effects_run by blast
  from Store_forward_inv [OF f] obtain fs
    where "pick item_frame (effects (forwarded err_fmt p)) = map LogFrame_from fs"
      and "prefix fs (pick event_frame (pick log_event (lp_fwd p)))"
    by (cases fpc) (auto simp: forward_inv_def forward_done_def)
  then show thesis by (rule that)
qed

text \<open>The frames the client receives are the first frames of the merge, translated.\<close>

lemma client_frames:
  assumes run: "all_run kind err_fmt p" and wired: "wired err_fmt p"
  obtains gs where "pick client_frame (lp_client p) = map LogFrame_from gs" and "prefix gs (merged p)"
proof -
  obtain fs where fs: "pick item_frame (effects (forwarded err_fmt p)) = map LogFrame_from fs"
    and "prefix fs (pick event_frame (pick log_event (lp_fwd p)))"
    by (rule forward_frames [OF run])
  note this(2)
  also have "prefix (pick event_frame (pick log_event (lp_fwd p)))
      (pick event_frame (pick to_bcast (effects (waited p))))"
    by (rule prefix_pick [OF log_events [OF run wired]])
  also note tracker_frames [OF run]
  finally have merged: "prefix fs (merged p)" .
  from wired have "prefix (pick client_frame (lp_client p)) (map LogFrame_from fs)"
    unfolding client_frames_eq fs [symmetric] by (simp add: wired_def fifo_pick)
  then obtain n where "pick client_frame (lp_client p) = take n (map LogFrame_from fs)"
    by (metis prefix_def append_eq_conv_conj)
  then have "pick client_frame (lp_client p) = map LogFrame_from (take n fs)"
    by (simp add: take_map)
  moreover have "prefix (take n fs) (merged p)"
    using merged by (rule prefix_order.trans [OF take_is_prefix])
  ultimately show thesis by (rule that)
qed

section \<open>When nobody goes away early\<close>

definition live ::
  "(tracker_error \<Rightarrow> string) \<Rightarrow> 'dt log_path \<Rightarrow> bool" where
  "live err_fmt p \<longleftrightarrow>
     list_all (\<lambda>k. SendDone False \<notin> set (reads p k)
        \<and> (list_ex (\<lambda>sent. StreamRecv k None sent \<in> set (lp_wait p)) [True, False] \<longrightarrow>
             final (consumed p k) = Some Consumed
             \<and> pick (stream_item k) (lp_wait p) = effects (consumed p k))) [Stdout, Stderr]
     \<and> list_all fwd_sent (lp_fwd p)
     \<and> (list_ex no_more (lp_client p) \<longrightarrow>
          final (forwarded err_fmt p) = Some FwdDone
          \<and> pick item_of (lp_client p) = effects (forwarded err_fmt p))"

text \<open>A task behind a response stream that ends well has seen the end of the log.\<close>

lemma forward_eof:
  assumes run: "all_run kind err_fmt p" and live: "live err_fmt p"
    and fin: "copied kind p = Some (Stopped (Done ()), out)"
  obtains fs where "pick log_event (lp_fwd p) = map FrameEv fs @ [EofEv]"
    and "pick client_frame (lp_client p) = map LogFrame_from fs"
proof -
  from client_logs_inv [OF fin] have "list_ex no_more (lp_client p)"
    and no_err: "\<not> list_ex server_error (lp_client p)"
    by (auto simp: logs_inv_def)
  with live have "final (forwarded err_fmt p) = Some FwdDone"
    and all: "pick item_of (lp_client p) = effects (forwarded err_fmt p)"
    and sent: "list_all fwd_sent (lp_fwd p)"
    by (simp_all add: live_def)
  then have f: "forwarded err_fmt p = Some (FwdDone, effects (forwarded err_fmt p))"
    by (auto simp: final_def effects_def)
  have "Inl st \<notin> set (effects (forwarded err_fmt p))" for st
  proof
    assume "Inl st \<in> set (effects (forwarded err_fmt p))"
    then obtain e where "e \<in> set (lp_client p)" and "item_of e = Some (Inl st)"
      unfolding all [symmetric] set_pick by blast
    with no_err show False by (cases e rule: item_of.cases) (auto simp: list_ex_iff)
  qed
  with f sent obtain fs where "pick log_event (lp_fwd p) = map FrameEv fs @ [EofEv]"
    and "effects (forwarded err_fmt p) = items fs" by (rule Store_forward_eof)
  with all show thesis by (intro that) (simp_all add: client_frames_eq)
qed

text \<open>Then the tracker left its loop without an error and with both streams at their end.\<close>

lemma tracker_eof:
  assumes w: "JobTracker_wait inner es = Some (st, out)"
    and pre: "prefix (map FrameEv fs @ [EofEv]) (pick to_bcast out)"
  shows "fs = pick received_frame es" and "\<exists>sent. StreamRecv k None sent \<in> set es"
    and "StreamRecv k (Some (Inl err)) sent \<notin> set es"
proof -
  note invs = JobTracker_wait_invs [OF w]
  have eof: "EofEv \<in> set (pick to_bcast out)" using set_mono_prefix [OF pre] by auto
  with invs(1) have complete: "w_pc st = Complete"
    and sent: "pick to_bcast out = map FrameEv (pick relayed_frame es) @ [final_event (loop_err st)]"
    and no_err: "final_event (loop_err st) = EofEv"
    by (auto simp: frames_inv_def split: if_splits)
  from no_err have ok: "loop_err st = None" by (auto simp: final_event_def split: option.splits)
  with invs(1) have "pick relayed_frame es = pick received_frame es" by (simp add: frames_inv_def)
  with sent pre no_err have "prefix (map FrameEv fs @ [EofEv]) (map FrameEv (pick received_frame es) @ [EofEv])"
    by simp
  then have "map FrameEv fs = map FrameEv (pick received_frame es)"
    by (auto simp: prefix_snoc dest: set_mono_prefix)
  then show "fs = pick received_frame es" by (simp add: inj_map_eq_map inj_def)
  from invs(3) ok complete have "\<not> stdout_ok st" and "\<not> stderr_ok st" by (auto simp: select_inv_def)
  with invs(4) show "\<exists>sent. StreamRecv k None sent \<in> set es"
    by (cases k) (auto simp: streams_inv_def)
  from invs(4) ok show "StreamRecv k (Some (Inl err)) sent \<notin> set es"
    by (simp add: streams_inv_def)
qed

lemma stream_complete:
  assumes run: "all_run kind err_fmt p" and live: "live err_fmt p"
    and closed: "\<exists>sent. StreamRecv k None sent \<in> set (lp_wait p)"
    and no_err: "\<And>err sent. StreamRecv k (Some (Inl err)) sent \<notin> set (lp_wait p)"
  shows "concat (map item_bytes (pick (stream_item k) (lp_wait p))) = child_bytes p k"
proof -
  from closed have "list_ex (\<lambda>sent. StreamRecv k None sent \<in> set (lp_wait p)) [True, False]"
    by (auto, metis (full_types))
  with live have sends: "SendDone False \<notin> set (reads p k)"
    and fin: "final (consumed p k) = Some Consumed"
    and all: "pick (stream_item k) (lp_wait p) = effects (consumed p k)"
    unfolding live_def all_streams by blast+
  from fin have run_k: "consume_output k (reads p k) = Some (Consumed, effects (consumed p k))"
    by (auto simp: final_def effects_def)
  have "Inl err \<notin> set (effects (consumed p k))" for err
  proof
    assume "Inl err \<in> set (effects (consumed p k))"
    then obtain e where "e \<in> set (lp_wait p)" and "stream_item k e = Some (Inl err)"
      unfolding all [symmetric] set_pick by blast
    with no_err show False by (cases "(k, e)" rule: stream_item.cases) (auto split: if_splits)
  qed
  with consume_output_complete [OF run_k sends]
  have "effects (consumed p k) = sent_frames k (chunks (reads p k))" by blast
  then show ?thesis unfolding all child_bytes_def by simp
qed

text \<open>In any case what the client has printed is a prefix.\<close>

lemma output_prefix:
  assumes run: "all_run kind err_fmt p" and wired: "wired err_fmt p" and kind: "kind_getter kind"
    and copy: "copied kind p = Some (pc, out)"
  shows "prefix (written k out) (child_bytes p k)"
proof -
  obtain gs where gs: "pick client_frame (lp_client p) = map LogFrame_from gs"
    and "prefix gs (merged p)" by (rule client_frames [OF run wired])
  from client_logs_inv [OF copy]
  have "prefix (written k out) (lf_bytes kind k (pick client_frame (lp_client p)))"
    by (simp add: logs_inv_def)
  also have "\<dots> = kind_bytes k gs"
    unfolding gs by (rule lf_bytes_LogFrame [OF kind])
  also have "prefix \<dots> (kind_bytes k (merged p))"
    by (rule kind_bytes_prefix) fact
  also have "prefix \<dots> (child_bytes p k)" by (rule merged_items(2) [OF run wired])
  finally show ?thesis .
qed

text \<open>Then the client has printed the whole output.\<close>

lemma complete_output:
  assumes run: "all_run kind err_fmt p" and wired: "wired err_fmt p" and kind: "kind_getter kind"
    and live: "live err_fmt p" and fin: "copied kind p = Some (Stopped (Done ()), out)"
  shows "written k out = child_bytes p k"
proof -
  obtain fs where eof: "pick log_event (lp_fwd p) = map FrameEv fs @ [EofEv]"
    and fs: "pick client_frame (lp_client p) = map LogFrame_from fs"
    by (rule forward_eof [OF run live fin])
  from run obtain wst where w: "waited p = Some (wst, effects (waited p))"
    unfolding all_run_def using effects_run by blast
  note tracker = tracker_eof [OF w log_events [OF run wired, unfolded eof]]
  from client_logs_inv [OF fin] have "written k out = lf_bytes kind k (map LogFrame_from fs)"
    by (simp add: logs_inv_def fs)
  also have "\<dots> = kind_bytes k (merged p)"
    unfolding lf_bytes_LogFrame [OF kind] merged_def tracker(1) ..
  also have "\<dots> = child_bytes p k"
    unfolding merged_items(1) [OF run wired]
    by (rule stream_complete [OF run live tracker(2,3)])
  finally show ?thesis .
qed

section \<open>Properties\<close>

text \<open>
  C3: what a client prints on its standard output is a prefix of what the child wrote to its
  standard output, and the same for standard error: no byte is lost in the middle, repeated,
  reordered or moved to the other stream, whatever the interleaving of the tasks, whenever
  the client asked for the logs, and whoever of them stops early.
\<close>

theorem client_output_is_a_prefix:
  assumes run: "all_run kind err_fmt p" and wired: "wired err_fmt p" and kind: "kind_getter kind"
    and copy: "copied kind p = Some (pc, out)"
  shows "prefix (written k out) (child_bytes p k)"
  by (rule output_prefix [OF assms])

text \<open>
  C1: a client that ends without an error has printed everything: all bytes that the child
  wrote to each of its streams, provided that nobody along the way went away early.
\<close>

theorem client_output_is_complete:
  assumes run: "all_run kind err_fmt p" and wired: "wired err_fmt p" and kind: "kind_getter kind"
    and live: "live err_fmt p" and fin: "copied kind p = Some (Stopped (Done ()), out)"
  shows "written k out = child_bytes p k"
  by (rule complete_output [OF assms])

text \<open>Two observers of one tracker.\<close>

definition same_log :: "'dt log_path \<Rightarrow> 'dt log_path \<Rightarrow> bool" where
  "same_log p q \<longleftrightarrow> lp_inner p = lp_inner q \<and> lp_wait p = lp_wait q"

lemma complete_frames:
  assumes run: "all_run kind err_fmt p" and wired: "wired err_fmt p" and live: "live err_fmt p"
    and fin: "copied kind p = Some (Stopped (Done ()), out)"
  shows "pick client_frame (lp_client p) = map LogFrame_from (merged p)"
proof -
  obtain fs where eof: "pick log_event (lp_fwd p) = map FrameEv fs @ [EofEv]"
    and fs: "pick client_frame (lp_client p) = map LogFrame_from fs"
    by (rule forward_eof [OF run live fin])
  from run obtain wst where w: "waited p = Some (wst, effects (waited p))"
    unfolding all_run_def using effects_run by blast
  from tracker_eof(1) [OF w log_events [OF run wired, unfolded eof]] fs show ?thesis
    by (simp add: merged_def)
qed

text \<open>
  C21: all clients see the same log. Two clients that ask for the logs of a job, one from the
  start and one long after the job has ended, say, receive the same frames in the same order,
  also across the two streams: as long as they run, one has received a prefix of what the
  other has, and when both end without an error the two sequences are equal.
\<close>

theorem clients_see_the_same_log:
  assumes p: "all_run kind err_fmt p" "wired err_fmt p" and q: "all_run kind err_fmt q" "wired err_fmt q"
    and same: "same_log p q"
  shows "(prefix (pick client_frame (lp_client p)) (pick client_frame (lp_client q))
      \<or> prefix (pick client_frame (lp_client q)) (pick client_frame (lp_client p)))
    \<and> (live err_fmt p \<and> live err_fmt q
        \<and> final (copied kind p) = Some (Stopped (Done ())) \<and> final (copied kind q) = Some (Stopped (Done ()))
        \<longrightarrow> pick client_frame (lp_client p) = pick client_frame (lp_client q))"
proof -
  from same have merged: "merged q = merged p" by (simp add: same_log_def merged_def)
  obtain fs where fs: "pick client_frame (lp_client p) = map LogFrame_from fs" and "prefix fs (merged p)"
    by (rule client_frames [OF p])
  moreover obtain gs where gs: "pick client_frame (lp_client q) = map LogFrame_from gs" and "prefix gs (merged p)"
    by (rule client_frames [OF q, unfolded merged])
  ultimately have "prefix fs gs \<or> prefix gs fs" using prefix_same_cases by blast
  then have "prefix (pick client_frame (lp_client p)) (pick client_frame (lp_client q))
      \<or> prefix (pick client_frame (lp_client q)) (pick client_frame (lp_client p))"
    unfolding fs gs by (auto intro: map_mono_prefix)
  moreover have "pick client_frame (lp_client p) = pick client_frame (lp_client q)"
    if "live err_fmt p" "live err_fmt q" and fp: "final (copied kind p) = Some (Stopped (Done ()))"
      and fq: "final (copied kind q) = Some (Stopped (Done ()))"
  proof -
    from fp fq obtain o1 o2 where "copied kind p = Some (Stopped (Done ()), o1)"
      and "copied kind q = Some (Stopped (Done ()), o2)" by (auto simp: final_def)
    with complete_frames [OF p that(1)] complete_frames [OF q that(2)] show ?thesis by (simp add: merged)
  qed
  ultimately show ?thesis by blast
qed

text \<open>
  A child that writes two bytes and ends; the client asked for the logs before.
\<close>

definition sample_frame :: frame where
  "sample_frame = Frame_new Stdout [104, 105]"

definition sample_path :: "nat log_path" where
  "sample_path =
     \<lparr>lp_out_reads = sample_reads, lp_err_reads = [ReadDone (Inr (replicate 1024 0, 0))],
      lp_inner = JobTracker_track sample_started 0 0,
      lp_wait = [StreamRecv Stdout (Some (Inr sample_frame)) True, StreamRecv Stdout None False,
                 StreamRecv Stderr None False, ChildWait (Inr (OsCode 0)) 6, LastSend True],
      lp_bcast = [ReqRecv (Some True), FrameRecv (Some (FrameEv sample_frame)) (\<lambda>r. True),
                  FrameRecv (Some EofEv) (\<lambda>r. True)],
      lp_relay = 0, lp_snapshot = [],
      lp_relayed = [BcastRecv (Some (FrameEv sample_frame)), ClientSend True,
                    BcastRecv (Some EofEv), ClientSend True],
      lp_fwd = [LogRecv (Some (FrameEv sample_frame)) True, LogRecv (Some EofEv) True],
      lp_client = [Message (Inr (Some (LogFrame_from sample_frame))) Written, Message (Inr None) Written]\<rparr>"

lemma sample_path_sel [simp]:
  "lp_out_reads sample_path = sample_reads"
  "lp_err_reads sample_path = [ReadDone (Inr (replicate 1024 0, 0))]"
  "lp_wait sample_path = [StreamRecv Stdout (Some (Inr sample_frame)) True, StreamRecv Stdout None False,
     StreamRecv Stderr None False, ChildWait (Inr (OsCode 0)) 6, LastSend True]"
  "lp_bcast sample_path = [ReqRecv (Some True), FrameRecv (Some (FrameEv sample_frame)) (\<lambda>r. True),
     FrameRecv (Some EofEv) (\<lambda>r. True)]"
  "lp_relay sample_path = 0" "lp_snapshot sample_path = []"
  "lp_relayed sample_path = [BcastRecv (Some (FrameEv sample_frame)), ClientSend True,
     BcastRecv (Some EofEv), ClientSend True]"
  "lp_fwd sample_path = [LogRecv (Some (FrameEv sample_frame)) True, LogRecv (Some EofEv) True]"
  "lp_client sample_path = [Message (Inr (Some (LogFrame_from sample_frame))) Written, Message (Inr None) Written]"
  by (simp_all add: sample_path_def)

lemma sample_consumed:
  "consumed sample_path Stdout = Some (Consumed, [Inr sample_frame])"
  "consumed sample_path Stderr = Some (Consumed, [])"
  by (simp_all add: sample_reads_facts(1) sample_frame_def) (simp add: consume_output_def)

lemma sample_waited: "\<exists>st. waited sample_path = Some (st, [ToBcast (FrameEv sample_frame), ToBcast EofEv])"
  by (simp add: sample_path_def JobTracker_wait_def wait_step.simps wait_start_def JobTracker_track_def
        on_stream_def on_child_def set_exited_def loop_top_def finish_def Let_def)

lemma sample_bcasted:
  "\<exists>st. bcasted sample_path = Some (st, [StartRelay 0 [], Offered 0 (FrameEv sample_frame), Offered 0 EofEv])"
  by (simp add: FrameBroadcaster_bcast_def bcast_step.simps bcast_start_def FrameRelay_start_def
        FrameRelay_accept_def)

lemma sample_relayed_path: "\<exists>st. relayed sample_path = Some (st, [FrameEv sample_frame, EofEv])"
  by (simp add: FrameRelay_relay_def relay_step.simps relay_start_def relay_top_def)

lemma sample_forwarded: "forwarded (\<lambda>e. []) sample_path = Some (FwdDone, items [sample_frame])"
  by (simp add: Store_forward_def)

lemma sample_copied: "copied sample_kind sample_path = Some (Stopped (Done ()), [Wrote Stdout [104, 105]])"
  by (simp add: client_logs_def sample_kind_def write_frame_def LogFrame_from_def sample_frame_def)

lemma sample_path_run: "all_run sample_kind (\<lambda>e. []) sample_path"
proof -
  have "list_all read_within (reads sample_path Stdout)" and "list_all read_within (reads sample_path Stderr)"
    using sample_reads_facts(2) by simp_all
  with sample_consumed sample_waited sample_bcasted sample_relayed_path sample_forwarded sample_copied
  show ?thesis unfolding all_run_def by (auto simp del: sample_path_sel)
qed

lemma sample_effects_path:
  "effects (consumed sample_path Stdout) = [Inr sample_frame]" "effects (consumed sample_path Stderr) = []"
  "effects (waited sample_path) = [ToBcast (FrameEv sample_frame), ToBcast EofEv]"
  "effects (bcasted sample_path) = [StartRelay 0 [], Offered 0 (FrameEv sample_frame), Offered 0 EofEv]"
  "effects (relayed sample_path) = [FrameEv sample_frame, EofEv]"
  "effects (forwarded (\<lambda>e. []) sample_path) = items [sample_frame]"
  using sample_consumed sample_waited sample_bcasted sample_relayed_path sample_forwarded
  by (auto simp: effects_def simp del: sample_path_sel)

lemma sample_path_wired: "wired (\<lambda>e. []) sample_path"
proof -
  have "closed_only_unheld relay_step relay_closes relay_holds (relay_start []) (lp_relayed sample_path)"
    by (rule closed_only_unheldI) (simp add: relay_closes_def)
  then show ?thesis
    unfolding wired_def sample_effects_path list.pred_inject by simp
qed

lemma sample_path_live: "live (\<lambda>e. []) sample_path"
proof -
  have "final (consumed sample_path Stdout) = Some Consumed" "final (consumed sample_path Stderr) = Some Consumed"
    using sample_consumed by (simp_all add: final_def del: sample_path_sel)
  moreover have "final (forwarded (\<lambda>e. []) sample_path) = Some FwdDone"
    by (simp add: sample_forwarded final_def del: sample_path_sel)
  moreover have "SendDone False \<notin> set (reads sample_path Stdout)" by (simp add: sample_reads_def)
  ultimately show ?thesis
    unfolding live_def sample_effects_path list.pred_inject by simp
qed

lemma sample_kind_getter: "kind_getter sample_kind"
  unfolding kind_getter_def
proof
  show "sample_kind (LogFrameKind_number k) = k" for k by (cases k) (simp_all add: sample_kind_def)
qed

lemma client_output_is_a_prefix_witness:
  "prefix (written Stdout [Wrote Stdout [104, 105]]) (child_bytes sample_path Stdout)"
  by (rule client_output_is_a_prefix [OF sample_path_run sample_path_wired sample_kind_getter sample_copied])

lemma client_output_is_complete_witness:
  "written Stdout [Wrote Stdout [104, 105]] = child_bytes sample_path Stdout"
  by (rule client_output_is_complete
        [OF sample_path_run sample_path_wired sample_kind_getter sample_path_live sample_copied])

text \<open>The same job with a client that asks after the end of the log.\<close>

definition late_path :: "nat log_path" where
  "late_path = sample_path
     \<lparr>lp_bcast := [FrameRecv (Some (FrameEv sample_frame)) (\<lambda>r. True), FrameRecv (Some EofEv) (\<lambda>r. True),
                   ReqRecv (Some True)],
      lp_snapshot := [FrameEv sample_frame, EofEv],
      lp_relayed := [ClientSend True, ClientSend True]\<rparr>"

lemma late_path_sel:
  "reads late_path = reads sample_path" "lp_inner late_path = lp_inner sample_path"
  "lp_wait late_path = lp_wait sample_path" "lp_fwd late_path = lp_fwd sample_path"
  "lp_client late_path = lp_client sample_path" "lp_relay late_path = 0"
  "lp_snapshot late_path = [FrameEv sample_frame, EofEv]" "lp_relayed late_path = [ClientSend True, ClientSend True]"
proof -
  show "reads late_path = reads sample_path"
  proof
    show "reads late_path k = reads sample_path k" for k by (cases k) (simp_all add: late_path_def)
  qed
qed (simp_all add: late_path_def del: sample_path_sel, simp add: late_path_def)

lemma late_bcasted:
  "\<exists>st. bcasted late_path = Some (st, [StartRelay 0 [FrameEv sample_frame, EofEv]])"
  by (simp add: late_path_def FrameBroadcaster_bcast_def bcast_step.simps bcast_start_def FrameRelay_start_def
        FrameRelay_accept_def)

lemma late_relayed: "\<exists>st. relayed late_path = Some (st, [FrameEv sample_frame, EofEv])"
  by (simp add: late_path_sel FrameRelay_relay_def relay_step.simps relay_start_def relay_top_def)

lemma late_effects:
  "effects (bcasted late_path) = [StartRelay 0 [FrameEv sample_frame, EofEv]]"
  "effects (relayed late_path) = [FrameEv sample_frame, EofEv]"
  using late_bcasted late_relayed by (auto simp: effects_def)

lemma late_path_run: "all_run sample_kind (\<lambda>e. []) late_path"
  using sample_path_run late_bcasted late_relayed
  unfolding all_run_def late_path_sel by auto

lemma late_path_wired: "wired (\<lambda>e. []) late_path"
proof -
  have "closed_only_unheld relay_step relay_closes relay_holds (relay_start [FrameEv sample_frame, EofEv])
      [ClientSend True, ClientSend True]"
    by (rule closed_only_unheldI) (simp add: relay_closes_def)
  moreover have "pick source_event (lp_bcast late_path) = [FrameEv sample_frame, EofEv]"
    by (simp add: late_path_def)
  ultimately show ?thesis
    unfolding wired_def late_effects unfolding late_path_sel sample_effects_path list.pred_inject
    by simp
qed

lemma late_path_live: "live (\<lambda>e. []) late_path"
  using sample_path_live unfolding live_def late_path_sel .

lemma clients_see_the_same_log_witness:
  "pick client_frame (lp_client sample_path) = pick client_frame (lp_client late_path)
   \<and> lp_snapshot late_path \<noteq> lp_snapshot sample_path"
proof
  have "same_log sample_path late_path" by (simp add: same_log_def late_path_sel)
  from clients_see_the_same_log [OF sample_path_run sample_path_wired late_path_run late_path_wired this]
  show "pick client_frame (lp_client sample_path) = pick client_frame (lp_client late_path)"
    by (simp add: sample_path_live late_path_live final_def sample_copied late_path_sel del: sample_path_sel)
  show "lp_snapshot late_path \<noteq> lp_snapshot sample_path" by (simp add: late_path_sel)
qed

end
