(* ===== verification/Pipeline.thy ===== *)
theory Pipeline
  imports EndToEnd
begin

text \<open>
  The tasks of one log stream as a closed system: the child writes a given script, reading
  its streams ends well or fails, it exits or cannot be waited for, some requests to kill it
  come, and one client asks for the log at some moment and stays. The channels have the
  capacities of the code. A state is a \<open>log_path\<close>, the histories of all tasks; a move lets
  one task take its next event, when the channels allow it.
\<close>

section \<open>Channels\<close>

text \<open>The capacities: \<open>output_rx\<close>, \<open>track\<close>, the two of \<open>FrameRelay::start\<close>, and \<open>logs\<close> of the service.\<close>

definition stream_cap :: nat where "stream_cap = 16"

definition frame_cap :: nat where "frame_cap = 2"

definition relay_cap :: nat where "relay_cap = 1024"

definition client_cap :: nat where "client_cap = 1024"

definition response_cap :: nat where "response_cap = 1"

text \<open>
  A channel is what was put into it and what was taken out. \<open>waiting\<close> is its next element;
  \<open>room\<close> tells whether a send completes.
\<close>

definition waiting :: "'a list \<Rightarrow> 'a list \<Rightarrow> 'a option" where
  "waiting sent received =
     (if length received < length sent then Some (sent ! length received) else None)"

definition room :: "nat \<Rightarrow> 'a list \<Rightarrow> 'a list \<Rightarrow> bool" where
  "room cap sent received \<longleftrightarrow> length sent < cap + length received"

section \<open>Moves\<close>

text \<open>
  What surrounds the tasks: the chunks that successive reads of each stream return, and the
  error of the read after them, if that is not the end of the file; what waiting for the child
  returns, and when; the requests to kill the child with what \<open>kill\<close> returns for each; prost's
  accessor and the texts of errors.
\<close>

record 'dt net_env =
  ne_script :: "stream_kind \<Rightarrow> u8 list list"
  ne_fail :: "stream_kind \<Rightarrow> io_error option"
  ne_exit :: "io_error + os_exit"
  ne_now :: 'dt
  ne_kills :: "(kill_request \<times> (io_error + unit)) list"
  ne_kind :: "i32 \<Rightarrow> log_frame_kind"
  ne_fmt :: "tracker_error \<Rightarrow> string"

datatype net_move =
    Consume stream_kind | Merge stream_kind | StreamEnd stream_kind | ChildExit | KillTake | SendLast
  | BcastTake | BcastEnd | Subscribe | RelayTake | RelaySend | Forward | Print | PrintEnd

definition net_start :: "'dt tracker_inner \<Rightarrow> 'dt log_path" where
  "net_start inner =
     \<lparr>lp_out_reads = [], lp_err_reads = [], lp_inner = inner, lp_wait = [], lp_bcast = [],
      lp_relay = 0, lp_snapshot = [], lp_relayed = [], lp_fwd = [], lp_client = []\<rparr>"

text \<open>The two ends of each channel.\<close>

abbreviation "taken p k \<equiv> pick (stream_item k) (lp_wait p)"
abbreviation "tracked p \<equiv> pick to_bcast (effects (waited p))"
abbreviation "logged p \<equiv> pick source_event (lp_bcast p)"
abbreviation "offered p \<equiv> pick (offered_by (lp_relay p)) (effects (bcasted p))"
abbreviation "queued p \<equiv> pick bcast_frame (lp_relayed p)"
abbreviation "relay_out p \<equiv> effects (relayed p)"
abbreviation "fetched p \<equiv> pick log_event (lp_fwd p)"
abbreviation "answers fmt p \<equiv> effects (forwarded fmt p)"
abbreviation "printed p \<equiv> pick item_of (lp_client p)"

text \<open>A task takes an event, if it accepts it where it is.\<close>

definition add_read :: "stream_kind \<Rightarrow> consume_event \<Rightarrow> 'dt log_path \<Rightarrow> 'dt log_path" where
  "add_read k e p =
     (case k of
        Stdout \<Rightarrow> p\<lparr>lp_out_reads := lp_out_reads p @ [e]\<rparr>
      | Stderr \<Rightarrow> p\<lparr>lp_err_reads := lp_err_reads p @ [e]\<rparr>)"

definition add_wait :: "'dt wait_event \<Rightarrow> 'dt log_path \<Rightarrow> 'dt log_path option" where
  "add_wait e p =
     (let q = p\<lparr>lp_wait := lp_wait p @ [e]\<rparr> in if waited q = None then None else Some q)"

definition add_bcast :: "bcast_event \<Rightarrow> 'dt log_path \<Rightarrow> 'dt log_path option" where
  "add_bcast e p =
     (let q = p\<lparr>lp_bcast := lp_bcast p @ [e]\<rparr> in if bcasted q = None then None else Some q)"

definition add_relayed :: "relay_event \<Rightarrow> 'dt log_path \<Rightarrow> 'dt log_path option" where
  "add_relayed e p =
     (let q = p\<lparr>lp_relayed := lp_relayed p @ [e]\<rparr> in if relayed q = None then None else Some q)"

definition add_fwd :: "(tracker_error \<Rightarrow> string) \<Rightarrow> forward_event \<Rightarrow> 'dt log_path \<Rightarrow> 'dt log_path option" where
  "add_fwd fmt e p =
     (let q = p\<lparr>lp_fwd := lp_fwd p @ [e]\<rparr> in if forwarded fmt q = None then None else Some q)"

definition add_client :: "(i32 \<Rightarrow> log_frame_kind) \<Rightarrow> client_event \<Rightarrow> 'dt log_path \<Rightarrow> 'dt log_path option" where
  "add_client kind e p =
     (let q = p\<lparr>lp_client := lp_client p @ [e]\<rparr> in if copied kind q = None then None else Some q)"

text \<open>
  The reading task reads the next chunk of the script into a zeroed buffer of 1024 bytes, and
  nothing or an error after the last. Its send completes when the channel has room; when the
  tracker has returned, it fails.
\<close>

definition read_of :: "u8 list \<Rightarrow> consume_event" where
  "read_of c = ReadDone (Inr (c @ replicate (1024 - length c) 0, length c))"

definition next_read :: "u8 list list \<Rightarrow> io_error option \<Rightarrow> consume_event list \<Rightarrow> consume_event" where
  "next_read cs fail es =
     (let m = length (chunks es) in
      if m < length cs then read_of (cs ! m)
      else (case fail of None \<Rightarrow> read_of [] | Some err \<Rightarrow> ReadDone (Inl err)))"

definition tracker_gone :: "'dt log_path \<Rightarrow> bool" where
  "tracker_gone p \<longleftrightarrow> map_option w_pc (final (waited p)) = Some Complete"

definition send_next :: "stream_kind \<Rightarrow> 'dt log_path \<Rightarrow> consume_event option" where
  "send_next k p =
     (if tracker_gone p then Some (SendDone False)
      else if room stream_cap (effects (consumed p k)) (taken p k) then Some (SendDone True)
      else None)"

definition consume_next :: "'dt net_env \<Rightarrow> stream_kind \<Rightarrow> 'dt log_path \<Rightarrow> consume_event option" where
  "consume_next env k p =
     (case final (consumed p k) of
        Some Reading \<Rightarrow> Some (next_read (ne_script env k) (ne_fail env k) (reads p k))
      | Some (SendFrame f) \<Rightarrow> send_next k p
      | Some (SendErr e) \<Rightarrow> send_next k p
      | _ \<Rightarrow> None)"

text \<open>The requests to kill the child that the tracker has taken.\<close>

definition kills_taken :: "'dt log_path \<Rightarrow> nat" where
  "kills_taken p = length (pick received_req (lp_wait p))"

primrec is_request :: "bcast_event \<Rightarrow> bool" where
  "is_request (FrameRecv frame acc) \<longleftrightarrow> False"
| "is_request (ReqRecv req) \<longleftrightarrow> True"

definition subscribed :: "'dt log_path \<Rightarrow> bool" where
  "subscribed p \<longleftrightarrow> list_ex is_request (lp_bcast p)"

text \<open>What the broadcaster's \<open>try_send\<close> to the relay answers.\<close>

definition relay_accepts :: "'dt log_path \<Rightarrow> nat \<Rightarrow> bool" where
  "relay_accepts p r \<longleftrightarrow> room relay_cap (pick (offered_by r) (effects (bcasted p))) (queued p)"

fun net_step :: "'dt net_env \<Rightarrow> 'dt log_path \<Rightarrow> net_move \<Rightarrow> 'dt log_path option" where
  "net_step env p (Consume k) = map_option (\<lambda>e. add_read k e p) (consume_next env k p)"
| "net_step env p (Merge k) =
     (case waiting (effects (consumed p k)) (taken p k) of
        None \<Rightarrow> None
      | Some x \<Rightarrow>
          if isl x \<or> room frame_cap (tracked p) (logged p)
          then add_wait (StreamRecv k (Some x) True) p else None)"
| "net_step env p (StreamEnd k) =
     (if final (consumed p k) = Some Consumed \<and> waiting (effects (consumed p k)) (taken p k) = None
      then add_wait (StreamRecv k None False) p else None)"
| "net_step env p ChildExit = add_wait (ChildWait (ne_exit env) (ne_now env)) p"
| "net_step env p KillTake =
     (if kills_taken p < length (ne_kills env)
      then add_wait (case ne_kills env ! kills_taken p of (req, res) \<Rightarrow> KillRecv (Some req) res (ne_now env)) p
      else None)"
| "net_step env p SendLast =
     (if room frame_cap (tracked p) (logged p) then add_wait (LastSend True) p else None)"
| "net_step env p BcastTake =
     (case waiting (tracked p) (logged p) of
        None \<Rightarrow> None
      | Some ev \<Rightarrow> add_bcast (FrameRecv (Some ev) (relay_accepts p)) p)"
| "net_step env p BcastEnd =
     (if tracker_gone p \<and> waiting (tracked p) (logged p) = None
      then add_bcast (FrameRecv None (\<lambda>r. False)) p else None)"
| "net_step env p Subscribe =
     (if subscribed p then None
      else (case bcasted p of
              None \<Rightarrow> None
            | Some (st, out) \<Rightarrow>
                add_bcast (ReqRecv (Some True)) (p\<lparr>lp_relay := next_relay st, lp_snapshot := b_frames st\<rparr>)))"
| "net_step env p RelayTake =
     (case waiting (offered p) (queued p) of
        None \<Rightarrow> None
      | Some ev \<Rightarrow> add_relayed (BcastRecv (Some ev)) p)"
| "net_step env p RelaySend =
     (if room client_cap (relay_out p) (fetched p) then add_relayed (ClientSend True) p else None)"
| "net_step env p Forward =
     (case waiting (relay_out p) (fetched p) of
        None \<Rightarrow> None
      | Some ev \<Rightarrow>
          if ev = EofEv \<or> room response_cap (answers (ne_fmt env) p) (printed p)
          then add_fwd (ne_fmt env) (LogRecv (Some ev) True) p else None)"
| "net_step env p Print =
     (case waiting (answers (ne_fmt env) p) (printed p) of
        None \<Rightarrow> None
      | Some x \<Rightarrow> add_client (ne_kind env) (Message (map_ok Some x) Written) p)"
| "net_step env p PrintEnd =
     (if final (forwarded (ne_fmt env) p) = Some FwdDone
         \<and> waiting (answers (ne_fmt env) p) (printed p) = None
      then add_client (ne_kind env) (Message (Inr None) Written) p else None)"

text \<open>A schedule is a list of moves.\<close>

definition net_task :: "'dt net_env \<Rightarrow> 'dt log_path \<Rightarrow> net_move \<Rightarrow> ('dt log_path \<times> unit list) option" where
  "net_task env p m = map_option (\<lambda>q. (q, [])) (net_step env p m)"

definition net_run :: "'dt net_env \<Rightarrow> 'dt tracker_inner \<Rightarrow> net_move list \<Rightarrow> 'dt log_path option" where
  "net_run env inner ms = final (run (net_task env) (net_start inner) ms)"

definition all_moves :: "net_move list" where
  "all_moves =
     map Consume [Stdout, Stderr] @ map Merge [Stdout, Stderr] @ map StreamEnd [Stdout, Stderr]
     @ [ChildExit, KillTake, SendLast, BcastTake, BcastEnd, Subscribe, RelayTake, RelaySend, Forward,
        Print, PrintEnd]"

definition stuck :: "'dt net_env \<Rightarrow> 'dt log_path \<Rightarrow> bool" where
  "stuck env p \<longleftrightarrow> list_all (\<lambda>m. net_step env p m = None) all_moves"

text \<open>Nothing fails: both streams end well and the exit of the child is seen.\<close>

definition no_failures :: "'dt net_env \<Rightarrow> bool" where
  "no_failures env \<longleftrightarrow> list_all (\<lambda>k. ne_fail env k = None) [Stdout, Stderr] \<and> \<not> isl (ne_exit env)"

text \<open>The client has ended without an error and has printed everything.\<close>

definition delivered :: "'dt net_env \<Rightarrow> 'dt log_path \<Rightarrow> bool" where
  "delivered env p \<longleftrightarrow>
     final (copied (ne_kind env) p) = Some (Stopped (Done ()))
     \<and> list_all (\<lambda>k. written k (effects (copied (ne_kind env) p)) = concat (ne_script env k)) [Stdout, Stderr]"

text \<open>The client was told of an error, after a first part of the output.\<close>

definition told_error :: "'dt net_env \<Rightarrow> 'dt log_path \<Rightarrow> bool" where
  "told_error env p \<longleftrightarrow>
     (case final (copied (ne_kind env) p) of
        Some (Stopped (Exit1 st)) \<Rightarrow> st_code st = Internal
      | _ \<Rightarrow> False)
     \<and> list_all (\<lambda>k. prefix (written k (effects (copied (ne_kind env) p))) (concat (ne_script env k)))
         [Stdout, Stderr]"

definition script_ok :: "'dt net_env \<Rightarrow> bool" where
  "script_ok env \<longleftrightarrow>
     list_all (\<lambda>k. list_all (\<lambda>c. 1 \<le> length c \<and> length c \<le> 1024) (ne_script env k)) [Stdout, Stderr]"

definition frames_of :: "'dt net_env \<Rightarrow> nat" where
  "frames_of env = length (ne_script env Stdout) + length (ne_script env Stderr)"

section \<open>Each task while nobody goes away\<close>

text \<open>
  The events that a task sees when no task beside it goes away early, and what they say of its
  state, its effects and the number of its events.
\<close>

fun good_wait :: "'dt wait_event \<Rightarrow> bool" where
  "good_wait (StreamRecv k None sent) \<longleftrightarrow> True"
| "good_wait (StreamRecv k (Some x) sent) \<longleftrightarrow> sent"
| "good_wait (KillRecv req res now) \<longleftrightarrow> req \<noteq> None"
| "good_wait (ChildWait res now) \<longleftrightarrow> True"
| "good_wait (LastSend sent) \<longleftrightarrow> sent"

definition ended :: "'dt wait_state \<Rightarrow> nat" where
  "ended st = of_bool (\<not> stdout_ok st) + of_bool (\<not> stderr_ok st) + of_bool (\<not> child_ok st)"

text \<open>An error that ends the loop comes from a stream or from waiting for the child.\<close>

definition err_source :: "'dt wait_event list \<Rightarrow> tracker_error \<Rightarrow> bool" where
  "err_source es err \<longleftrightarrow>
     (\<exists>k. Inl err \<in> set (pick (stream_item k) es)) \<or> (\<exists>res now. ChildWait (Inl res) now \<in> set es)"

definition wait_good_inv :: "'dt wait_event list \<Rightarrow> 'dt wait_out list \<Rightarrow> 'dt wait_state \<Rightarrow> bool" where
  "wait_good_inv es out st \<longleftrightarrow>
     (list_all good_wait es \<longrightarrow>
        length es = length (pick (stream_item Stdout) es) + length (pick (stream_item Stderr) es)
          + length (pick received_req es) + ended st + of_bool (w_pc st = Complete)
        \<and> pick to_bcast out = map FrameEv (pick received_frame es)
          @ (if w_pc st = Complete then [final_event (loop_err st)] else [])
        \<and> (\<forall>err. loop_err st = Some err \<longrightarrow> err_source es err))"

lemma err_source_simps [simp]:
  "\<not> err_source [] err"
  "err_source (es @ es') err \<longleftrightarrow> err_source es err \<or> err_source es' err"
  "err_source [StreamRecv k ev sent] err \<longleftrightarrow> ev = Some (Inl err)"
  "err_source [ChildWait res now] err \<longleftrightarrow> isl res"
  by (auto simp: err_source_def isl_def split: option.splits if_splits)

lemma wait_good_inv_step:
  assumes inv: "wait_good_inv es out st" and step: "wait_step st e = Some (st', out')"
  shows "wait_good_inv (es @ [e]) (out @ out') st'"
  using step
proof (cases rule: wait_step_cases)
  case (stream_end k sent)
  with inv show ?thesis by (cases k) (auto simp: wait_good_inv_def ended_def loop_top_pc)
next
  case (stream_err k err sent)
  with inv show ?thesis by (cases k) (auto simp: wait_good_inv_def ended_def)
next
  case (relayed k f)
  with inv show ?thesis by (cases k) (auto simp: wait_good_inv_def ended_def)
next
  case (finish sent)
  have "loop_err st' = loop_err st" and "ended st' = ended st" and "w_pc st' = Complete"
    and "pick to_bcast out' = (if sent then [final_event (loop_err st)] else [])"
    using finish(3) by (cases "loop_err st"; force simp: finish_def ended_def final_event_def)+
  with finish(1,2) inv show ?thesis by (simp add: wait_good_inv_def)
qed (use inv in \<open>auto simp: wait_good_inv_def ended_def loop_top_pc\<close>)

interpretation waiter_good: task wait_step "wait_start inner" wait_good_inv for inner
  by unfold_locales (simp add: wait_good_inv_def wait_start_def ended_def, rule wait_good_inv_step)

fun good_bcast :: "bcast_event \<Rightarrow> bool" where
  "good_bcast (FrameRecv frame acc) \<longleftrightarrow> True"
| "good_bcast (ReqRecv req) \<longleftrightarrow> req = Some True"

definition requests :: "bcast_event list \<Rightarrow> nat" where
  "requests es = length (filter is_request es)"

fun source_end :: "bcast_event \<Rightarrow> bool" where
  "source_end (FrameRecv frame acc) \<longleftrightarrow> frame = None"
| "source_end (ReqRecv req) \<longleftrightarrow> False"

definition bcast_good_inv :: "bcast_event list \<Rightarrow> bcast_out list \<Rightarrow> bcast_state \<Rightarrow> bool" where
  "bcast_good_inv es out st \<longleftrightarrow>
     (list_all good_bcast es \<longrightarrow>
        (frame_rx_ok st \<longleftrightarrow> \<not> list_ex source_end es) \<and> req_rx_ok st \<and> next_relay st = requests es
        \<and> length es = length (pick source_event es) + requests es + of_bool (list_ex source_end es))"

lemma requests_simps [simp]:
  "requests [] = 0" "requests (es @ es') = requests es + requests es'"
  "requests [e] = (if is_request e then 1 else 0)"
  by (simp_all add: requests_def)

lemma bcast_good_inv_step:
  "bcast_step st e = Some (st', out') \<Longrightarrow> bcast_good_inv es out st \<Longrightarrow>
   bcast_good_inv (es @ [e]) (out @ out') st'"
  by (cases rule: bcast_step_cases) (auto simp: bcast_good_inv_def)

interpretation bcast_good: task bcast_step bcast_start bcast_good_inv
  by unfold_locales (simp add: bcast_good_inv_def bcast_start_def, rule bcast_good_inv_step)

fun good_relay :: "relay_event \<Rightarrow> bool" where
  "good_relay (BcastRecv frame) \<longleftrightarrow> frame \<noteq> None"
| "good_relay (ClientSend ok) \<longleftrightarrow> ok"

definition relay_good_inv :: "relay_event list \<Rightarrow> frame_event list \<Rightarrow> relay_state \<Rightarrow> bool" where
  "relay_good_inv es out st \<longleftrightarrow>
     (list_all good_relay es \<longrightarrow>
        r_pc st = RLoop \<and> length es = length (pick bcast_frame es) + length out)"

lemma relay_good_inv_step:
  "relay_step st e = Some (st', out') \<Longrightarrow> relay_good_inv es out st \<Longrightarrow>
   relay_good_inv (es @ [e]) (out @ out') st'"
  by (cases rule: relay_step_cases) (auto simp: relay_good_inv_def)

interpretation relay_good: task relay_step "relay_start fs" relay_good_inv for fs
  by unfold_locales (simp add: relay_good_inv_def, rule relay_good_inv_step)

fun good_fwd :: "forward_event \<Rightarrow> bool" where
  "good_fwd (LogRecv ev sent) \<longleftrightarrow> ev \<noteq> None \<and> sent"

text \<open>The terminal event of a log, and the item it becomes.\<close>

definition end_item :: "(tracker_error \<Rightarrow> string) \<Rightarrow> frame_event \<Rightarrow> (status + log_frame) list" where
  "end_item fmt ev =
     (case ev of
        ErrorEv err \<Rightarrow> [Inl (mk_status Internal (''log stream failed: '' @ fmt err))]
      | _ \<Rightarrow> [])"

definition forward_good_inv ::
  "(tracker_error \<Rightarrow> string) \<Rightarrow> forward_event list \<Rightarrow> (status + log_frame) list \<Rightarrow> forward_pc \<Rightarrow> bool" where
  "forward_good_inv fmt es out pc \<longleftrightarrow>
     (list_all good_fwd es \<longrightarrow>
        length es = length (pick log_event es)
        \<and> (\<exists>fs. if pc = FwdDone
             then \<exists>ev. terminal ev \<and> pick log_event es = map FrameEv fs @ [ev] \<and> out = items fs @ end_item fmt ev
             else pick log_event es = map FrameEv fs \<and> out = items fs))"

lemma forward_good_inv_step:
  assumes inv: "forward_good_inv fmt es out pc" and step: "forward_step fmt pc e = Some (pc', out')"
  shows "forward_good_inv fmt (es @ [e]) (out @ out') pc'"
  unfolding forward_good_inv_def
proof
  assume good: "list_all good_fwd (es @ [e])"
  then obtain ev where e: "e = LogRecv (Some ev) True" by (cases e) auto
  from step have pc: "pc = FwdLoop" by (cases pc) auto
  with inv good obtain fs where fs: "pick log_event es = map FrameEv fs" "out = items fs"
    and len: "length es = length (pick log_event es)" by (auto simp: forward_good_inv_def)
  show "length (es @ [e]) = length (pick log_event (es @ [e]))
    \<and> (\<exists>fs. if pc' = FwdDone
         then \<exists>ev. terminal ev \<and> pick log_event (es @ [e]) = map FrameEv fs @ [ev]
                \<and> out @ out' = items fs @ end_item fmt ev
         else pick log_event (es @ [e]) = map FrameEv fs \<and> out @ out' = items fs)"
  proof (cases ev)
    case (FrameEv f)
    with step pc e fs len show ?thesis by (auto intro!: exI [of _ "fs @ [f]"])
  qed (use step pc e fs len in \<open>auto simp: end_item_def intro!: exI [of _ fs]\<close>)
qed

interpretation forwarder_good: task "forward_step fmt" FwdLoop "forward_good_inv fmt" for fmt
  by unfold_locales (simp add: forward_good_inv_def, rule forward_good_inv_step)

fun good_client :: "client_event \<Rightarrow> bool" where
  "good_client (Message res w) \<longleftrightarrow> w = Written"

definition client_good_inv :: "client_event list \<Rightarrow> client_out list \<Rightarrow> client_pc \<Rightarrow> bool" where
  "client_good_inv es out pc \<longleftrightarrow>
     (list_all good_client es \<longrightarrow>
        length es = length (pick item_of es) + of_bool (list_ex no_more es)
        \<and> (case pc of
             Streaming \<Rightarrow> True
           | Stopped (Exit1 st) \<Rightarrow> Inl st \<in> set (pick item_of es)
           | Stopped (Done u) \<Rightarrow> True
           | Stopped (Bail msg) \<Rightarrow> False))"

lemma client_good_inv_step:
  "logs_step kind pc e = Some (pc', out') \<Longrightarrow> client_good_inv es out pc \<and> logs_inv kind es out pc \<Longrightarrow>
   client_good_inv (es @ [e]) (out @ out') pc'"
  by (cases "(kind, pc, e)" rule: logs_step.cases)
     (auto simp: client_good_inv_def logs_inv_def write_frame_def split: log_frame_kind.splits if_splits)

interpretation client_good: task "logs_step kind" Streaming
    "\<lambda>es out pc. client_good_inv es out pc \<and> logs_inv kind es out pc" for kind
proof
  show "client_good_inv [] [] Streaming \<and> logs_inv kind [] [] Streaming"
    by (simp add: client_good_inv_def log_client.inv_start)
qed (use client_good_inv_step logs_inv_step in blast)

text \<open>What comes after the frames of a stream: nothing, or its error.\<close>

definition fail_items :: "stream_kind \<Rightarrow> io_error option \<Rightarrow> (tracker_error + frame) list" where
  "fail_items k fail = (case fail of None \<Rightarrow> [] | Some err \<Rightarrow> [Inl (ReadOutput k err)])"

lemma fail_items_simps [simp]:
  "fail_items k None = []" "fail_items k (Some err) = [Inl (ReadOutput k err)]"
  by (simp_all add: fail_items_def)

text \<open>
  The reading task on a script: it reads on; or it has ended, at the end of the file, with
  the error of its stream, or because the tracker has returned.
\<close>

definition script_inv :: "stream_kind \<Rightarrow> u8 list list \<Rightarrow> io_error option \<Rightarrow> consume_event list \<Rightarrow> bool" where
  "script_inv k cs fail es \<longleftrightarrow>
     prefix (chunks es) cs \<and> list_all read_within es
     \<and> (case consume_output k es of
          Some (Reading, out) \<Rightarrow>
            SendDone False \<notin> set es \<and> out = sent_frames k (chunks es) \<and> length es = 2 * length (chunks es)
        | Some (SendFrame f, out) \<Rightarrow>
            SendDone False \<notin> set es \<and> Suc (length es) = 2 * length (chunks es)
            \<and> (\<exists>ds c. chunks es = ds @ [c] \<and> f = Frame_new k c \<and> out = sent_frames k ds)
        | Some (SendErr e, out) \<Rightarrow>
            SendDone False \<notin> set es \<and> length es = Suc (2 * length cs) \<and> chunks es = cs
            \<and> out = sent_frames k cs \<and> (\<exists>err. fail = Some err \<and> e = ReadOutput k err)
        | Some (Consumed, out) \<Rightarrow>
            length es \<le> 2 * length cs + 2
            \<and> (if SendDone False \<in> set es then \<exists>ds. prefix ds cs \<and> out = sent_frames k ds
               else chunks es = cs
                 \<and> out = sent_frames k cs @ fail_items k fail)
        | _ \<Rightarrow> False)"

lemma script_inv_start: "script_inv k cs fail []"
  by (simp add: script_inv_def consume_output_def)

lemma consume_output_snoc:
  "consume_output k (es @ [e]) =
     (case consume_output k es of
        None \<Rightarrow> None
      | Some (pc, out) \<Rightarrow> map_option (apsnd (\<lambda>out'. out @ out')) (consume_step k pc e))"
  by (auto simp: consume_output_def run_append split: option.splits)

lemma chunk_read_of [simp]: "chunk (read_of c) = (if c = [] then None else Some c)"
  by (simp add: read_of_def)

lemma read_of_not_send [simp]: "read_of c \<noteq> SendDone ok" "SendDone ok \<noteq> read_of c"
  by (simp_all add: read_of_def)

lemma read_of_within [simp]: "read_within (read_of c) \<longleftrightarrow> length c \<le> 1024"
  by (auto simp: read_of_def)

lemma consume_step_read_of [simp]:
  "consume_step k Reading (read_of c) = Some (if c = [] then Consumed else SendFrame (Frame_new k c), [])"
  by (simp add: read_of_def)

lemma script_read:
  assumes inv: "script_inv k cs fail es" and pc: "final (consume_output k es) = Some Reading"
    and cs: "list_all (\<lambda>c. 1 \<le> length c \<and> length c \<le> 1024) cs"
  shows "script_inv k cs fail (es @ [next_read cs fail es])"
proof -
  from pc obtain out where run: "consume_output k es = Some (Reading, out)"
    by (auto simp: final_def)
  with inv have pre: "prefix (chunks es) cs" and out: "out = sent_frames k (chunks es)"
    and len: "length es = 2 * length (chunks es)" and sends: "SendDone False \<notin> set es"
    by (auto simp: script_inv_def)
  from pre obtain ds where ds: "cs = chunks es @ ds" by (auto simp: prefix_def)
  show ?thesis
  proof (cases ds)
    case Nil
    with inv run ds out len sends show ?thesis
      by (cases fail) (simp_all add: script_inv_def consume_output_snoc next_read_def)
  next
    case (Cons d ds')
    with ds have e: "next_read cs fail es = read_of d" by (simp add: next_read_def nth_append)
    from cs ds Cons have "d \<noteq> []" "length d \<le> 1024" by auto
    with inv run ds Cons out len sends show ?thesis
      unfolding e by (simp add: script_inv_def consume_output_snoc)
  qed
qed

lemma script_send:
  assumes inv: "script_inv k cs fail es"
    and pc: "(\<exists>f. final (consume_output k es) = Some (SendFrame f)) \<or> (\<exists>e. final (consume_output k es) = Some (SendErr e))"
  shows "script_inv k cs fail (es @ [SendDone ok])"
proof -
  from pc consider f out where "consume_output k es = Some (SendFrame f, out)"
    | e out where "consume_output k es = Some (SendErr e, out)"
    by (auto simp: final_def)
  then show ?thesis
  proof cases
    case (1 f out)
    with inv obtain ds c where "chunks es = ds @ [c]" and "prefix (ds @ [c]) cs" and "f = Frame_new k c"
      and "out = sent_frames k ds" and "SendDone False \<notin> set es" and "Suc (length es) = 2 * length (chunks es)"
      and "list_all read_within es"
      by (auto simp: script_inv_def)
    then show ?thesis
      using 1 prefix_length_le [of "ds @ [c]" cs]
      by (cases ok) (auto simp: script_inv_def consume_output_snoc dest: append_prefixD)
  next
    case (2 e out)
    with inv show ?thesis
      by (cases ok) (auto simp: script_inv_def consume_output_snoc)
  qed
qed

lemma script_invE [consumes 1, case_names reading sending erring closed cut]:
  assumes inv: "script_inv k cs fail es"
  obtains "consume_output k es = Some (Reading, sent_frames k (chunks es))" "prefix (chunks es) cs"
      "length es = 2 * length (chunks es)" "SendDone False \<notin> set es"
  | ds c where "consume_output k es = Some (SendFrame (Frame_new k c), sent_frames k ds)"
      "chunks es = ds @ [c]" "prefix (ds @ [c]) cs" "Suc (length es) = 2 * length (chunks es)"
      "SendDone False \<notin> set es"
  | err where "consume_output k es = Some (SendErr (ReadOutput k err), sent_frames k cs)" "fail = Some err"
      "chunks es = cs" "length es = Suc (2 * length cs)" "SendDone False \<notin> set es"
  | "consume_output k es = Some (Consumed, sent_frames k cs
        @ fail_items k fail)"
      "chunks es = cs" "length es \<le> 2 * length cs + 2" "SendDone False \<notin> set es"
  | ds where "consume_output k es = Some (Consumed, sent_frames k ds)" "prefix ds cs"
      "length es \<le> 2 * length cs + 2" "SendDone False \<in> set es"
proof -
  from inv obtain pc out where run: "consume_output k es = Some (pc, out)"
    by (auto simp: script_inv_def split: option.splits)
  with inv show thesis
    by (cases pc) (auto simp: script_inv_def intro: that split: if_splits)
qed

section \<open>Channels\<close>

lemma effects_Some [simp]: "effects (Some (s, out)) = out"
  by (simp add: effects_def)

lemma final_Some [simp]: "final (Some (s, out)) = Some s"
  by (simp add: final_def)

lemma final_None [simp]: "final None = None"
  by (simp add: final_def)

lemma final_eq_Some: "final res = Some s \<longleftrightarrow> res = Some (s, effects res)"
  by (auto simp: final_def effects_def)

lemma fifo_sent [simp]: "fifo sent received \<Longrightarrow> fifo (sent @ new) received"
  by (simp add: fifo_def prefix_append)

lemma fifo_waiting:
  assumes "fifo sent received" and "waiting sent received = Some x"
  shows "fifo sent (received @ [x])"
proof -
  from assms(1) obtain ys where sent: "sent = received @ ys" by (auto simp: fifo_def prefix_def)
  with assms(2) show ?thesis
    by (cases ys) (auto simp: fifo_def waiting_def split: if_splits)
qed

lemma fifo_empty: "fifo sent received \<Longrightarrow> waiting sent received = None \<Longrightarrow> received = sent"
  by (auto simp: fifo_def waiting_def prefix_def split: if_splits)

lemma waiting_NoneI: "(\<And>x. waiting sent received = Some x \<Longrightarrow> False) \<Longrightarrow> waiting sent received = None"
  by (cases "waiting sent received") auto

lemma waiting_in: "waiting sent received = Some x \<Longrightarrow> x \<in> set sent"
  by (auto simp: waiting_def split: if_splits)

lemma waiting_room: "waiting sent received = None \<Longrightarrow> 0 < cap \<Longrightarrow> room cap sent received"
  by (auto simp: waiting_def room_def split: if_splits)

section \<open>One more event of a task\<close>

lemma run_snoc:
  "run step s (es @ [e]) =
     (case run step s es of
        None \<Rightarrow> None
      | Some (s1, out1) \<Rightarrow> map_option (apsnd (\<lambda>out2. out1 @ out2)) (step s1 e))"
  by (auto simp: run_append split: option.splits)

lemma add_waitE:
  assumes "add_wait e p = Some q"
  obtains st out st' out' where "q = p\<lparr>lp_wait := lp_wait p @ [e]\<rparr>" and "waited p = Some (st, out)"
    and "wait_step st e = Some (st', out')" and "waited q = Some (st', out @ out')"
  using assms by (auto simp: add_wait_def Let_def JobTracker_wait_def run_snoc split: if_splits option.splits)

lemma add_bcastE:
  assumes "add_bcast e p = Some q"
  obtains st out st' out' where "q = p\<lparr>lp_bcast := lp_bcast p @ [e]\<rparr>" and "bcasted p = Some (st, out)"
    and "bcast_step st e = Some (st', out')" and "bcasted q = Some (st', out @ out')"
  using assms by (auto simp: add_bcast_def Let_def FrameBroadcaster_bcast_def run_snoc split: if_splits option.splits)

lemma add_relayedE:
  assumes "add_relayed e p = Some q"
  obtains st out st' out' where "q = p\<lparr>lp_relayed := lp_relayed p @ [e]\<rparr>" and "relayed p = Some (st, out)"
    and "relay_step st e = Some (st', out')" and "relayed q = Some (st', out @ out')"
  using assms by (auto simp: add_relayed_def Let_def FrameRelay_relay_def run_snoc split: if_splits option.splits)

lemma add_fwdE:
  assumes "add_fwd fmt e p = Some q"
  obtains st out st' out' where "q = p\<lparr>lp_fwd := lp_fwd p @ [e]\<rparr>" and "forwarded fmt p = Some (st, out)"
    and "forward_step fmt st e = Some (st', out')" and "forwarded fmt q = Some (st', out @ out')"
  using assms by (auto simp: add_fwd_def Let_def Store_forward_def run_snoc split: if_splits option.splits)

lemma add_clientE:
  assumes "add_client kind e p = Some q"
  obtains st out st' out' where "q = p\<lparr>lp_client := lp_client p @ [e]\<rparr>" and "copied kind p = Some (st, out)"
    and "logs_step kind st e = Some (st', out')" and "copied kind q = Some (st', out @ out')"
  using assms by (auto simp: add_client_def Let_def client_logs_def run_snoc split: if_splits option.splits)

text \<open>And when the task accepts it, the event can be taken.\<close>

lemma add_waitI: "waited p = Some (st, out) \<Longrightarrow> wait_step st e \<noteq> None \<Longrightarrow> add_wait e p \<noteq> None"
  by (auto simp: add_wait_def Let_def JobTracker_wait_def run_snoc split: option.splits)

lemma add_bcastI: "bcasted p = Some (st, out) \<Longrightarrow> bcast_step st e \<noteq> None \<Longrightarrow> add_bcast e p \<noteq> None"
  by (auto simp: add_bcast_def Let_def FrameBroadcaster_bcast_def run_snoc split: option.splits)

lemma add_relayedI: "relayed p = Some (st, out) \<Longrightarrow> relay_step st e \<noteq> None \<Longrightarrow> add_relayed e p \<noteq> None"
  by (auto simp: add_relayed_def Let_def FrameRelay_relay_def run_snoc split: option.splits)

lemma add_fwdI: "forwarded fmt p = Some (st, out) \<Longrightarrow> forward_step fmt st e \<noteq> None \<Longrightarrow> add_fwd fmt e p \<noteq> None"
  by (auto simp: add_fwd_def Let_def Store_forward_def run_snoc split: option.splits)

lemma add_clientI: "copied kind p = Some (st, out) \<Longrightarrow> logs_step kind st e \<noteq> None \<Longrightarrow> add_client kind e p \<noteq> None"
  by (auto simp: add_client_def Let_def client_logs_def run_snoc split: option.splits)

end
