(* ===== verification/LogPath.thy ===== *)
theory LogPath
  imports JobSystem Pipeline
begin

text \<open>
  The whole way of a log: the gRPC calls, the coordinator, and for every job the tasks that
  \<open>track\<close> starts with its tracker, and for every answered call of \<open>logs\<close> the relay, the forwarding
  task and the client, as one transition system in which calls and tasks interleave in any order.
  Channels are queues without a bound, and every task may stop or fail at any time.
\<close>

section \<open>State\<close>

text \<open>
  The task at index \<open>r\<close> of \<open>tasks\<close> are those of tracker \<open>r\<close>: the two that read the output of the
  child, \<open>wait\<close> and \<open>bcast\<close>, in the fields of a \<open>log_path\<close> above the relay. \<open>served\<close> is an answered
  call of \<open>logs\<close>: its request, the relay behind the receiver it got, and the tasks from there on.
\<close>

record served =
  sv_req :: "logs_request request"
  sv_bcast :: nat
  sv_relay :: nat
  sv_snapshot :: "frame_event list"
  sv_relayed :: "relay_event list"
  sv_fwd :: "forward_event list"
  sv_client :: "client_event list"

record 'dt log_system =
  sys :: "'dt system"
  tasks :: "'dt log_path list"
  streams :: "served list"

definition log_start :: "'dt log_system" where
  "log_start = \<lparr>sys = system_start, tasks = [], streams = []\<rparr>"

definition path_of :: "'dt log_path \<Rightarrow> served \<Rightarrow> 'dt log_path" where
  "path_of t x = t\<lparr>lp_relay := sv_relay x, lp_snapshot := sv_snapshot x, lp_relayed := sv_relayed x,
                   lp_fwd := sv_fwd x, lp_client := sv_client x\<rparr>"

text \<open>With every new tracker come its tasks, which have seen nothing yet.\<close>

definition start_tasks :: "'dt log_path list \<Rightarrow> 'dt memory \<Rightarrow> 'dt log_path list" where
  "start_tasks ts m = ts @ map (\<lambda>st. net_start (w_inner st)) (drop (length ts) (trackers m))"

text \<open>
  What comes back on the oneshot of a request to broadcaster \<open>b\<close>: nothing in time, or the
  receiving end of a relay that the task of this broadcaster has started. \<open>choice\<close> tells which.
\<close>

type_synonym receiver = "nat \<times> nat \<times> frame_event list"

fun relay_started :: "nat \<Rightarrow> bcast_out list \<Rightarrow> frame_event list option" where
  "relay_started n [] = None"
| "relay_started n (StartRelay n' fs # out) = (if n' = n then Some fs else relay_started n out)"
| "relay_started n (x # out) = relay_started n out"

definition bcast_answer ::
  "'dt log_path list \<Rightarrow> (nat \<Rightarrow> nat option) \<Rightarrow> nat \<Rightarrow> receiver oneshot_wait" where
  "bcast_answer ts choice b =
     (if b < length ts then
        (case choice b of
           None \<Rightarrow> Elapsed
         | Some n \<Rightarrow>
             (case relay_started n (effects (bcasted (ts ! b))) of
                None \<Rightarrow> SenderDropped
              | Some fs \<Rightarrow> Received (b, n, fs)))
      else SenderDropped)"

fun new_stream :: "logs_request request \<Rightarrow> receiver \<Rightarrow> served" where
  "new_stream req (b, n, fs) =
     \<lparr>sv_req = req, sv_bcast = b, sv_relay = n, sv_snapshot = fs, sv_relayed = [], sv_fwd = [], sv_client = []\<rparr>"

section \<open>Steps\<close>

text \<open>A task takes from a channel what is next in it.\<close>

definition next_in :: "'a option \<Rightarrow> 'a list \<Rightarrow> 'a list \<Rightarrow> bool" where
  "next_in x sent received \<longleftrightarrow> (case x of None \<Rightarrow> True | Some y \<Rightarrow> waiting sent received = Some y)"

inductive log_step ::
  "(u8 list \<Rightarrow> string + string) \<Rightarrow> ('os opts \<Rightarrow> (spawn_error + 'c) rust) \<Rightarrow> ('c \<Rightarrow> u32)
    \<Rightarrow> (i32 \<Rightarrow> log_frame_kind) \<Rightarrow> (tracker_error \<Rightarrow> string) \<Rightarrow> 'dt log_system \<Rightarrow> 'dt log_system \<Rightarrow> bool"
  for parse_x509 :: "u8 list \<Rightarrow> string + string"
    and opts_spawn :: "'os opts \<Rightarrow> (spawn_error + 'c) rust" and pid_of :: "'c \<Rightarrow> u32"
    and kind :: "i32 \<Rightarrow> log_frame_kind" and fmt :: "tracker_error \<Rightarrow> string" where
  spawn_call: "MemoryCoordinator_spawn opts_spawn pid_of uuid now (mem (sys s)) c spec = (m', res) \<Longrightarrow>
     log_step parse_x509 opts_spawn pid_of kind fmt s
       (s\<lparr>sys := (sys s)\<lparr>mem := m'\<rparr>, tasks := start_tasks (tasks s) m'\<rparr>)"
| kill_call: "get_tracker (mem (sys s)) c i = Inr (r, job) \<Longrightarrow>
     log_step parse_x509 opts_spawn pid_of kind fmt s
       (s\<lparr>sys := (sys s)\<lparr>kill_log := kill_log (sys s)
            @ [JobTracker_request (tracker_inner_of (mem (sys s)) r) c tx]\<rparr>\<rparr>)"
| logs_call: "serve_logs parse_x509 (MemoryCoordinator_logs log_send (bcast_answer (tasks s) choice))
       (mem (sys s)) req = Inr (b, n, fs) \<Longrightarrow>
     (b, n) \<notin> set (map (\<lambda>x. (sv_bcast x, sv_relay x)) (streams s)) \<Longrightarrow>
     log_step parse_x509 opts_spawn pid_of kind fmt s
       (s\<lparr>streams := streams s @ [new_stream req (b, n, fs)]\<rparr>)"
| read_move: "r < length (tasks s) \<Longrightarrow> read_within e \<Longrightarrow>
     consume_output k (reads (tasks s ! r) k @ [e]) \<noteq> None \<Longrightarrow>
     log_step parse_x509 opts_spawn pid_of kind fmt s
       (s\<lparr>tasks := (tasks s)[r := add_read k e (tasks s ! r)]\<rparr>)"
| wait_move: "r < length (tasks s) \<Longrightarrow> wait_step (trackers (mem (sys s)) ! r) e = Some (st', out) \<Longrightarrow>
     (\<And>k. next_in (stream_item k e) (effects (consumed (tasks s ! r) k)) (taken (tasks s ! r) k)) \<Longrightarrow>
     (\<And>req. received_req e = Some req \<Longrightarrow>
        (ti_kill_tx (tracker_inner_of (mem (sys s)) r), req) \<in> set (kill_log (sys s))) \<Longrightarrow>
     log_step parse_x509 opts_spawn pid_of kind fmt s
       (s\<lparr>sys := (sys s)\<lparr>mem := update_tracker r st' (mem (sys s))\<rparr>,
          tasks := (tasks s)[r := (tasks s ! r)\<lparr>lp_wait := lp_wait (tasks s ! r) @ [e]\<rparr>]\<rparr>)"
| bcast_move: "r < length (tasks s) \<Longrightarrow>
     next_in (source_event e) (tracked (tasks s ! r)) (logged (tasks s ! r)) \<Longrightarrow>
     add_bcast e (tasks s ! r) = Some t \<Longrightarrow>
     log_step parse_x509 opts_spawn pid_of kind fmt s (s\<lparr>tasks := (tasks s)[r := t]\<rparr>)"
| relay_move: "n < length (streams s) \<Longrightarrow> x = streams s ! n \<Longrightarrow> p = path_of (tasks s ! sv_bcast x) x \<Longrightarrow>
     next_in (bcast_frame e) (offered p) (queued p) \<Longrightarrow>
     closed_only_unheld relay_step relay_closes relay_holds (relay_start (sv_snapshot x)) (sv_relayed x @ [e]) \<Longrightarrow>
     add_relayed e p \<noteq> None \<Longrightarrow>
     log_step parse_x509 opts_spawn pid_of kind fmt s
       (s\<lparr>streams := (streams s)[n := x\<lparr>sv_relayed := sv_relayed x @ [e]\<rparr>]\<rparr>)"
| forward_move: "n < length (streams s) \<Longrightarrow> x = streams s ! n \<Longrightarrow> p = path_of (tasks s ! sv_bcast x) x \<Longrightarrow>
     next_in (log_event e) (relay_out p) (fetched p) \<Longrightarrow> add_fwd fmt e p \<noteq> None \<Longrightarrow>
     log_step parse_x509 opts_spawn pid_of kind fmt s
       (s\<lparr>streams := (streams s)[n := x\<lparr>sv_fwd := sv_fwd x @ [e]\<rparr>]\<rparr>)"
| client_move: "n < length (streams s) \<Longrightarrow> x = streams s ! n \<Longrightarrow> p = path_of (tasks s ! sv_bcast x) x \<Longrightarrow>
     next_in (item_of e) (answers fmt p) (printed p) \<Longrightarrow> add_client kind e p \<noteq> None \<Longrightarrow>
     log_step parse_x509 opts_spawn pid_of kind fmt s
       (s\<lparr>streams := (streams s)[n := x\<lparr>sv_client := sv_client x @ [e]\<rparr>]\<rparr>)"

inductive log_reachable ::
  "(u8 list \<Rightarrow> string + string) \<Rightarrow> ('os opts \<Rightarrow> (spawn_error + 'c) rust) \<Rightarrow> ('c \<Rightarrow> u32)
    \<Rightarrow> (i32 \<Rightarrow> log_frame_kind) \<Rightarrow> (tracker_error \<Rightarrow> string) \<Rightarrow> 'dt log_system \<Rightarrow> bool"
  for parse_x509 opts_spawn pid_of kind fmt where
  log_at_start: "log_reachable parse_x509 opts_spawn pid_of kind fmt log_start"
| log_by_step: "log_reachable parse_x509 opts_spawn pid_of kind fmt s \<Longrightarrow>
     log_step parse_x509 opts_spawn pid_of kind fmt s s' \<Longrightarrow> log_reachable parse_x509 opts_spawn pid_of kind fmt s'"

section \<open>The call\<close>

lemma serve_logs_Inr:
  assumes ok: "serve_logs parse_x509 logs m req = Inr rx"
  shows "\<exists>c. caller parse_x509 req = Some c \<and> lreq_job_id (message req) \<noteq> []
     \<and> logs m c (JobId (lreq_job_id (message req))) = Inr rx"
proof (cases "caller parse_x509 req")
  case None
  from with_interceptor_refuse [OF this, of Inl "Store_logs logs m"]
  obtain st where "serve_logs parse_x509 logs m req = Inl st"
    unfolding serve_logs_def by blast
  with ok show ?thesis by simp
next
  case (Some c)
  with ok show ?thesis
    by (cases "logs m c (JobId (lreq_job_id (message req)))")
       (auto simp: serve_logs_def with_interceptor_accept Store_logs_def split: if_splits)
qed

lemma logs_Inr:
  assumes "MemoryCoordinator_logs log_send log_answer m c i = Inr rx"
  shows "\<exists>r. jobs m i = Some r \<and> job_user (JobTracker_job m r) = ctx_user c
    \<and> log_answer (ti_bcast (tracker_inner_of m r)) = Received rx"
proof (cases "get_tracker m c i")
  case (Inl e)
  with assms show ?thesis by (simp add: MemoryCoordinator_logs_def)
next
  case (Inr rj)
  then obtain r j where found: "get_tracker m c i = Inr (r, j)" by (cases rj) auto
  from assms have "FrameBroadcaster_stream (log_send (ti_bcast (tracker_inner_of m r)))
      (log_answer (ti_bcast (tracker_inner_of m r))) = Inr rx"
    by (auto simp: MemoryCoordinator_logs_def found JobTracker_stream_logs_def Let_def map_err_def
        split: sum.splits)
  then have "log_answer (ti_bcast (tracker_inner_of m r)) = Received rx"
    by (auto simp: FrameBroadcaster_stream_def split: if_splits oneshot_wait.splits)
  with get_tracker_InrD [OF found] show ?thesis by auto
qed

lemma relay_started_in: "relay_started n out = Some fs \<Longrightarrow> StartRelay n fs \<in> set out"
  by (induction n out rule: relay_started.induct) (auto split: if_splits)

lemma bcast_answer_Received:
  "bcast_answer ts choice b = Received (b', n, fs) \<Longrightarrow>
   b' = b \<and> b < length ts \<and> StartRelay n fs \<in> set (effects (bcasted (ts ! b)))"
  by (auto simp: bcast_answer_def relay_started_in split: if_splits option.splits)

section \<open>The invariant\<close>

text \<open>The tasks of one tracker: \<open>wait\<close> is where the table says, and the channels are queues.\<close>

definition tasks_ok :: "'dt memory \<Rightarrow> nat \<Rightarrow> 'dt log_path \<Rightarrow> bool" where
  "tasks_ok m r t \<longleftrightarrow>
     (\<exists>i u p now. lp_inner t = JobTracker_track (Job_started i u p now) r r)
     \<and> final (waited t) = Some (trackers m ! r) \<and> bcasted t \<noteq> None
     \<and> (\<forall>k. consumed t k \<noteq> None \<and> list_all read_within (reads t k)
            \<and> fifo (effects (consumed t k)) (taken t k))
     \<and> fifo (tracked t) (logged t)"

text \<open>One stream: it comes from a relay of its broadcaster, and its caller is the owner of the job.\<close>

definition served_ok ::
  "(u8 list \<Rightarrow> string + string) \<Rightarrow> (i32 \<Rightarrow> log_frame_kind) \<Rightarrow> (tracker_error \<Rightarrow> string)
    \<Rightarrow> 'dt log_path \<Rightarrow> served \<Rightarrow> bool" where
  "served_ok parse_x509 kind fmt t x \<longleftrightarrow>
     (\<exists>c. caller parse_x509 (sv_req x) = Some c \<and> job_user (ti_job (lp_inner t)) = ctx_user c)
     \<and> jid (ti_job (lp_inner t)) = JobId (lreq_job_id (message (sv_req x)))
     \<and> StartRelay (sv_relay x) (sv_snapshot x) \<in> set (effects (bcasted t))
     \<and> fifo (pick (offered_by (sv_relay x)) (effects (bcasted t))) (pick bcast_frame (sv_relayed x))
     \<and> closed_only_unheld relay_step relay_closes relay_holds (relay_start (sv_snapshot x)) (sv_relayed x)
     \<and> relayed (path_of t x) \<noteq> None \<and> forwarded fmt (path_of t x) \<noteq> None \<and> copied kind (path_of t x) \<noteq> None
     \<and> fifo (relay_out (path_of t x)) (fetched (path_of t x))
     \<and> fifo (answers fmt (path_of t x)) (printed (path_of t x))"

definition log_inv where
  "log_inv parse_x509 opts_spawn pid_of kind fmt s \<longleftrightarrow>
     system_reachable opts_spawn pid_of (sys s) \<and> length (tasks s) = length (trackers (mem (sys s)))
     \<and> (\<forall>r < length (tasks s). tasks_ok (mem (sys s)) r (tasks s ! r))
     \<and> (\<forall>x \<in> set (streams s). sv_bcast x < length (tasks s)
          \<and> served_ok parse_x509 kind fmt (tasks s ! sv_bcast x) x)"

lemma path_of_sel [simp]:
  "reads (path_of t x) k = reads t k" "lp_inner (path_of t x) = lp_inner t" "lp_wait (path_of t x) = lp_wait t"
  "lp_bcast (path_of t x) = lp_bcast t" "lp_relay (path_of t x) = sv_relay x"
  "lp_snapshot (path_of t x) = sv_snapshot x" "lp_relayed (path_of t x) = sv_relayed x"
  "lp_fwd (path_of t x) = sv_fwd x" "lp_client (path_of t x) = sv_client x"
  by (cases k; simp add: path_of_def)+

text \<open>An element that is next in its channel keeps it a queue.\<close>

lemma fifo_next:
  "fifo sent (pick f es) \<Longrightarrow> next_in (f e) sent (pick f es) \<Longrightarrow> fifo sent (pick f (es @ [e]))"
  by (cases "f e") (auto simp: next_in_def intro: fifo_waiting)

text \<open>A stream does not see what the tasks above the relay do, beyond new effects of the broadcaster.\<close>

lemma served_ok_grows:
  assumes "served_ok parse_x509 kind fmt t x" and "lp_inner t' = lp_inner t"
    and "effects (bcasted t') = effects (bcasted t) @ new"
  shows "served_ok parse_x509 kind fmt t' x"
  using assms by (auto simp: served_ok_def)

section \<open>Every step keeps it\<close>

lemma tasks_ok_start:
  assumes "trackers m ! r = wait_start (JobTracker_track (Job_started i u p now) r r)"
  shows "tasks_ok m r (net_start (JobTracker_track (Job_started i u p now) r r))"
proof -
  let ?t = "net_start (JobTracker_track (Job_started i u p now) r r)"
  have reads: "reads ?t k = []" for k by (cases k) (simp_all add: net_start_def)
  have "lp_inner ?t = JobTracker_track (Job_started i u p now) r r"
    and "lp_wait ?t = []" and "lp_bcast ?t = []" by (simp_all add: net_start_def)
  with assms show ?thesis
    by (auto simp: tasks_ok_def reads consume_output_def JobTracker_wait_def FrameBroadcaster_bcast_def fifo_def)
qed

lemma tasks_ok_same: "tasks_ok m r t \<Longrightarrow> trackers m' ! r = trackers m ! r \<Longrightarrow> tasks_ok m' r t"
  by (simp add: tasks_ok_def)

lemma tasks_ok_read:
  assumes ok: "tasks_ok m r t" and e: "read_within e" "consume_output k (reads t k @ [e]) \<noteq> None"
  shows "tasks_ok m r (add_read k e t)"
proof -
  from e(2) obtain out' where grow: "effects (consume_output k (reads t k @ [e])) = effects (consumed t k) @ out'"
    by (auto simp: consume_output_def run_snoc split: option.splits)
  have frame: "lp_inner (add_read k e t) = lp_inner t" "lp_wait (add_read k e t) = lp_wait t"
    "lp_bcast (add_read k e t) = lp_bcast t"
    "reads (add_read k e t) k' = (if k' = k then reads t k @ [e] else reads t k')" for k'
    by (cases k; cases k'; simp add: add_read_def)+
  show ?thesis
    using ok e grow unfolding tasks_ok_def frame by (auto simp: grow)
qed

lemma tasks_ok_wait:
  assumes ok: "tasks_ok m r t" and r: "r < length (trackers m)"
    and step: "wait_step (trackers m ! r) e = Some (st', out)"
    and item: "\<And>k. next_in (stream_item k e) (effects (consumed t k)) (taken t k)"
  shows "tasks_ok (update_tracker r st' m) r (t\<lparr>lp_wait := lp_wait t @ [e]\<rparr>)"
proof -
  let ?t = "t\<lparr>lp_wait := lp_wait t @ [e]\<rparr>"
  from ok obtain out0 where w: "waited t = Some (trackers m ! r, out0)"
    by (auto simp: tasks_ok_def final_def)
  then have new: "JobTracker_wait (lp_inner t) (lp_wait t @ [e]) = Some (st', out0 @ out)"
    using step by (simp add: JobTracker_wait_def run_snoc)
  have reads: "reads ?t k = reads t k" for k by (cases k) simp_all
  have "fifo (effects (consumed t k)) (pick (stream_item k) (lp_wait t @ [e]))" for k
    using ok item [of k] by (intro fifo_next) (simp_all add: tasks_ok_def)
  moreover have "fifo (tracked ?t) (logged ?t)"
    using ok by (simp add: new w tasks_ok_def)
  ultimately show ?thesis
    using ok r by (simp add: tasks_ok_def reads new)
qed

lemma tasks_ok_bcast:
  assumes ok: "tasks_ok m r t" and t': "add_bcast e t = Some t'"
    and event: "next_in (source_event e) (tracked t) (logged t)"
  shows "tasks_ok m r t'" and "\<exists>new. effects (bcasted t') = effects (bcasted t) @ new" and "lp_inner t' = lp_inner t"
proof -
  from t' obtain st out st' out' where t'_def: "t' = t\<lparr>lp_bcast := lp_bcast t @ [e]\<rparr>" and b: "bcasted t = Some (st, out)"
    and b': "bcasted t' = Some (st', out @ out')" by (rule add_bcastE)
  then show "\<exists>new. effects (bcasted t') = effects (bcasted t) @ new" and "lp_inner t' = lp_inner t" by simp_all
  have reads: "reads t' k = reads t k" for k unfolding t'_def by (cases k) simp_all
  have "fifo (tracked t) (pick source_event (lp_bcast t @ [e]))"
    using ok event by (intro fifo_next) (simp_all add: tasks_ok_def)
  then show "tasks_ok m r t'"
    using ok b' unfolding tasks_ok_def reads by (simp add: t'_def)
qed

lemma tasks_ok_job:
  assumes "tasks_ok m r t"
  shows "jid (ti_job (lp_inner t)) = jid (JobTracker_job m r)"
    and "job_user (ti_job (lp_inner t)) = job_user (JobTracker_job m r)"
proof -
  from assms obtain i u p now out where inner: "lp_inner t = JobTracker_track (Job_started i u p now) r r"
    and "waited t = Some (trackers m ! r, out)" by (auto simp: tasks_ok_def final_def)
  then have "same_job (Job_started i u p now) (trackers m ! r)"
    by (auto simp: life_inv_def dest: JobTracker_wait_life)
  then show "jid (ti_job (lp_inner t)) = jid (JobTracker_job m r)"
    and "job_user (ti_job (lp_inner t)) = job_user (JobTracker_job m r)"
    by (simp_all add: same_job_def inner JobTracker_track_def JobTracker_job_def tracker_inner_of_def)
qed

lemma served_ok_new:
  assumes reach: "system_reachable opts_spawn pid_of (sys s)"
    and tasks: "\<And>r. r < length (tasks s) \<Longrightarrow> tasks_ok (mem (sys s)) r (tasks s ! r)"
    and call: "serve_logs parse_x509 (MemoryCoordinator_logs log_send (bcast_answer (tasks s) choice))
       (mem (sys s)) req = Inr (b, n, fs)"
  shows "b < length (tasks s)" and "served_ok parse_x509 kind fmt (tasks s ! b) (new_stream req (b, n, fs))"
proof -
  let ?i = "JobId (lreq_job_id (message req))"
  from serve_logs_Inr [OF call] obtain c where c: "caller parse_x509 req = Some c"
    and logs: "MemoryCoordinator_logs log_send (bcast_answer (tasks s) choice) (mem (sys s)) c ?i = Inr (b, n, fs)"
    by blast
  from logs_Inr [OF logs] obtain r where r: "jobs (mem (sys s)) ?i = Some r"
    and owner: "job_user (JobTracker_job (mem (sys s)) r) = ctx_user c"
    and answer: "bcast_answer (tasks s) choice (ti_bcast (tracker_inner_of (mem (sys s)) r)) = Received (b, n, fs)"
    by blast
  from reachable_tracker [OF reach r] obtain u where id': "jid (JobTracker_job (mem (sys s)) r) = ?i"
    and t: "tracker_of ?i u r (trackers (mem (sys s)) ! r)" by blast
  from tracker_of_props(2) [OF t] bcast_answer_Received [OF answer] have b: "b = r" and len: "b < length (tasks s)"
    and start: "StartRelay n fs \<in> set (effects (bcasted (tasks s ! b)))" by (auto simp: tracker_inner_of_def)
  from len show "b < length (tasks s)" .
  from tasks_ok_job [OF tasks [OF len]] id' owner b
  have "jid (ti_job (lp_inner (tasks s ! b))) = ?i" and "job_user (ti_job (lp_inner (tasks s ! b))) = ctx_user c"
    by simp_all
  with c start show "served_ok parse_x509 kind fmt (tasks s ! b) (new_stream req (b, n, fs))"
    by (auto simp: served_ok_def FrameRelay_relay_def Store_forward_def client_logs_def fifo_def)
qed

lemma served_ok_relay:
  assumes ok: "served_ok parse_x509 kind fmt t x"
    and event: "next_in (bcast_frame e) (offered (path_of t x)) (queued (path_of t x))"
    and mpsc: "closed_only_unheld relay_step relay_closes relay_holds (relay_start (sv_snapshot x)) (sv_relayed x @ [e])"
    and step: "add_relayed e (path_of t x) \<noteq> None"
  shows "served_ok parse_x509 kind fmt t (x\<lparr>sv_relayed := sv_relayed x @ [e]\<rparr>)"
proof -
  from step obtain q where q: "add_relayed e (path_of t x) = Some q" by auto
  then obtain st out st' out' where "relayed (path_of t x) = Some (st, out)"
    and "q = (path_of t x)\<lparr>lp_relayed := lp_relayed (path_of t x) @ [e]\<rparr>" and "relayed q = Some (st', out @ out')"
    by (rule add_relayedE)
  then have run: "FrameRelay_relay (sv_snapshot x) (sv_relayed x) = Some (st, out)"
    and run': "FrameRelay_relay (sv_snapshot x) (sv_relayed x @ [e]) = Some (st', out @ out')" by simp_all
  have "fifo (offered (path_of t x)) (pick bcast_frame (sv_relayed x @ [e]))"
    using ok event by (intro fifo_next) (simp_all add: served_ok_def)
  with ok mpsc run run' show ?thesis by (simp add: served_ok_def)
qed

lemma served_ok_forward:
  assumes ok: "served_ok parse_x509 kind fmt t x"
    and event: "next_in (log_event e) (relay_out (path_of t x)) (fetched (path_of t x))"
    and step: "add_fwd fmt e (path_of t x) \<noteq> None"
  shows "served_ok parse_x509 kind fmt t (x\<lparr>sv_fwd := sv_fwd x @ [e]\<rparr>)"
proof -
  from step obtain q where q: "add_fwd fmt e (path_of t x) = Some q" by auto
  then obtain st out st' out' where "forwarded fmt (path_of t x) = Some (st, out)"
    and "q = (path_of t x)\<lparr>lp_fwd := lp_fwd (path_of t x) @ [e]\<rparr>" and "forwarded fmt q = Some (st', out @ out')"
    by (rule add_fwdE)
  then have run: "Store_forward fmt (sv_fwd x) = Some (st, out)"
    and run': "Store_forward fmt (sv_fwd x @ [e]) = Some (st', out @ out')" by simp_all
  have "fifo (relay_out (path_of t x)) (pick log_event (sv_fwd x @ [e]))"
    using ok event by (intro fifo_next) (simp_all add: served_ok_def)
  with ok run run' show ?thesis by (simp add: served_ok_def)
qed

lemma served_ok_client:
  assumes ok: "served_ok parse_x509 kind fmt t x"
    and event: "next_in (item_of e) (answers fmt (path_of t x)) (printed (path_of t x))"
    and step: "add_client kind e (path_of t x) \<noteq> None"
  shows "served_ok parse_x509 kind fmt t (x\<lparr>sv_client := sv_client x @ [e]\<rparr>)"
proof -
  from step obtain q where q: "add_client kind e (path_of t x) = Some q" by auto
  then obtain st out st' out' where "q = (path_of t x)\<lparr>lp_client := lp_client (path_of t x) @ [e]\<rparr>"
    and "copied kind q = Some (st', out @ out')"
    by (rule add_clientE)
  then have run': "client_logs kind (sv_client x @ [e]) = Some (st', out @ out')" by simp
  have "fifo (answers fmt (path_of t x)) (pick item_of (sv_client x @ [e]))"
    using ok event by (intro fifo_next) (simp_all add: served_ok_def)
  with ok run' show ?thesis by (simp add: served_ok_def)
qed

text \<open>A step of one stream, and one of the tasks of one tracker.\<close>

lemma log_inv_stream:
  assumes inv: "log_inv parse_x509 opts_spawn pid_of kind fmt s" and n: "n < length (streams s)"
    and same: "sv_bcast y = sv_bcast (streams s ! n)"
    and ok: "served_ok parse_x509 kind fmt (tasks s ! sv_bcast (streams s ! n)) (streams s ! n) \<Longrightarrow>
      served_ok parse_x509 kind fmt (tasks s ! sv_bcast (streams s ! n)) y"
  shows "log_inv parse_x509 opts_spawn pid_of kind fmt (s\<lparr>streams := (streams s)[n := y]\<rparr>)"
proof -
  from n have "streams s ! n \<in> set (streams s)" by simp
  with inv same ok have "sv_bcast y < length (tasks s) \<and> served_ok parse_x509 kind fmt (tasks s ! sv_bcast y) y"
    by (auto simp: log_inv_def)
  with inv set_update_subset_insert [of "streams s" n y] show ?thesis by (auto simp: log_inv_def)
qed

lemma log_inv_tasks:
  assumes inv: "log_inv parse_x509 opts_spawn pid_of kind fmt s" and r: "r < length (tasks s)"
    and reach: "system_reachable opts_spawn pid_of sys'"
    and same: "length (trackers (mem sys')) = length (trackers (mem (sys s)))"
      "\<And>q. q \<noteq> r \<Longrightarrow> trackers (mem sys') ! q = trackers (mem (sys s)) ! q"
    and ok: "tasks_ok (mem (sys s)) r (tasks s ! r) \<Longrightarrow> tasks_ok (mem sys') r t"
    and grow: "effects (bcasted t) = effects (bcasted (tasks s ! r)) @ new" "lp_inner t = lp_inner (tasks s ! r)"
  shows "log_inv parse_x509 opts_spawn pid_of kind fmt (s\<lparr>sys := sys', tasks := (tasks s)[r := t]\<rparr>)"
proof -
  have "tasks_ok (mem sys') q ((tasks s)[r := t] ! q)" if "q < length (tasks s)" for q
    using inv r ok that same tasks_ok_same [of "mem (sys s)" q "tasks s ! q" "mem sys'"]
    by (cases "q = r") (auto simp: log_inv_def)
  moreover have "served_ok parse_x509 kind fmt ((tasks s)[r := t] ! sv_bcast x) x" if "x \<in> set (streams s)" for x
    using inv that r served_ok_grows [OF _ grow(2,1)] by (cases "sv_bcast x = r") (auto simp: log_inv_def)
  ultimately show ?thesis using inv reach same(1) by (auto simp: log_inv_def)
qed

lemma log_inv_step:
  assumes step: "log_step parse_x509 opts_spawn pid_of kind fmt s s'"
    and inv: "log_inv parse_x509 opts_spawn pid_of kind fmt s"
  shows "log_inv parse_x509 opts_spawn pid_of kind fmt s'"
  using step
proof (cases rule: log_step.cases)
  case (spawn_call uuid now c spec m' res)
  from inv have reach: "system_reachable opts_spawn pid_of (sys s)"
    and len: "length (tasks s) = length (trackers (mem (sys s)))" by (simp_all add: log_inv_def)
  have reach': "system_reachable opts_spawn pid_of ((sys s)\<lparr>mem := m'\<rparr>)"
    using system_reachable.by_step [OF reach system_step.call_spawn [OF spawn_call(2)]] .
  from spawn_call(2) show ?thesis
  proof (cases rule: spawn_memory)
    case 1
    with spawn_call(1) inv len show ?thesis by (simp add: log_inv_def start_tasks_def)
  next
    case (2 p)
    let ?r = "length (trackers (mem (sys s)))"
    let ?t = "net_start (JobTracker_track (Job_started (JobId_default uuid) (ctx_user c) p now) ?r ?r)"
    have new: "tasks_ok m' ?r ?t"
      by (rule tasks_ok_start) (simp add: 2(2))
    have tasks': "start_tasks (tasks s) m' = tasks s @ [?t]"
      by (simp add: start_tasks_def len 2(2) wait_start_def)
    have "tasks_ok m' q ((tasks s @ [?t]) ! q)" if "q < Suc (length (tasks s))" for q
      using inv that new len tasks_ok_same [of "mem (sys s)" q "tasks s ! q" m']
      by (cases "q = length (tasks s)") (auto simp: log_inv_def nth_append 2(2))
    moreover have "served_ok parse_x509 kind fmt ((tasks s @ [?t]) ! sv_bcast x) x" "sv_bcast x < length (tasks s)"
      if "x \<in> set (streams s)" for x
      using inv that by (auto simp: log_inv_def nth_append)
    ultimately show ?thesis
      using reach' len by (fastforce simp: spawn_call(1) log_inv_def tasks' 2(2))
  qed
next
  case (kill_call c i r job tx)
  from inv have "system_reachable opts_spawn pid_of (sys s)" by (simp add: log_inv_def)
  from system_reachable.by_step [OF this system_step.call_kill [OF kill_call(2)]] inv
  show ?thesis by (auto simp: kill_call(1) log_inv_def)
next
  case (logs_call log_send choice req b n fs)
  from inv served_ok_new [OF _ _ logs_call(2)] show ?thesis
    by (auto simp: logs_call(1) log_inv_def)
next
  case (read_move r e k)
  have frame: "lp_bcast (add_read k e (tasks s ! r)) = lp_bcast (tasks s ! r)"
    "lp_inner (add_read k e (tasks s ! r)) = lp_inner (tasks s ! r)" by (cases k; simp add: add_read_def)+
  have "log_inv parse_x509 opts_spawn pid_of kind fmt (s\<lparr>sys := sys s, tasks := (tasks s)[r := add_read k e (tasks s ! r)]\<rparr>)"
    using inv tasks_ok_read [OF _ read_move(3,4)]
    by (intro log_inv_tasks [OF inv read_move(2), where new = "[]"]) (simp_all add: frame log_inv_def)
  then show ?thesis by (simp add: read_move(1))
next
  case (wait_move r e st' out)
  from inv have reach: "system_reachable opts_spawn pid_of (sys s)"
    and len: "r < length (trackers (mem (sys s)))" using wait_move(2) by (simp_all add: log_inv_def)
  have "system_reachable opts_spawn pid_of ((sys s)\<lparr>mem := update_tracker r st' (mem (sys s))\<rparr>)"
    using system_reachable.by_step [OF reach system_step.task_step [OF len wait_move(3,5)]] .
  then show ?thesis
    unfolding wait_move(1) using len tasks_ok_wait [OF _ len wait_move(3,4)]
    by (intro log_inv_tasks [OF inv wait_move(2), where new = "[]"]) simp_all
next
  case (bcast_move r e t)
  from inv bcast_move(2) have ok: "tasks_ok (mem (sys s)) r (tasks s ! r)" by (simp add: log_inv_def)
  note kept = tasks_ok_bcast [OF ok bcast_move(4,3)]
  from kept(2) obtain new where "effects (bcasted t) = effects (bcasted (tasks s ! r)) @ new" by blast
  with kept inv have "log_inv parse_x509 opts_spawn pid_of kind fmt (s\<lparr>sys := sys s, tasks := (tasks s)[r := t]\<rparr>)"
    by (intro log_inv_tasks [OF inv bcast_move(2)]) (simp_all add: log_inv_def)
  then show ?thesis by (simp add: bcast_move(1))
next
  case (relay_move n x p e)
  then show ?thesis
    unfolding relay_move(1) by (intro log_inv_stream [OF inv]) (simp_all add: served_ok_relay)
next
  case (forward_move n x p e)
  then show ?thesis
    unfolding forward_move(1) by (intro log_inv_stream [OF inv]) (simp_all add: served_ok_forward)
next
  case (client_move n x p e)
  then show ?thesis
    unfolding client_move(1) by (intro log_inv_stream [OF inv]) (simp_all add: served_ok_client)
qed

lemma log_reachable_inv:
  "log_reachable parse_x509 opts_spawn pid_of kind fmt s \<Longrightarrow> log_inv parse_x509 opts_spawn pid_of kind fmt s"
proof (induction rule: log_reachable.induct)
  case log_at_start
  show ?case
    using system_reachable.at_start
    by (simp add: log_inv_def log_start_def system_start_def MemoryCoordinator_default_def)
next
  case (log_by_step s s')
  then show ?case by (blast intro: log_inv_step)
qed

section \<open>Properties\<close>

text \<open>
  C6: only its owner reads the log of a job. In every reachable state of the coordinator, the
  tasks of all jobs and the streams that calls of \<open>logs\<close> have been answered with, take any such
  stream. Its caller has proved by its certificate to be the user who started the requested job;
  the stream comes from the tasks that were started for this very job, the ones behind the record
  that the caller sees; and what the client prints of it is, on standard output and on standard
  error, a first part of what those tasks have read from the child of that job.
\<close>

theorem readers_own_the_job:
  assumes reach: "log_reachable parse_x509 opts_spawn pid_of kind fmt s" and x: "x \<in> set (streams s)"
    and kind: "kind_getter kind"
  shows "\<exists>c p now. let b = sv_bcast x; path = path_of (tasks s ! b) x in
      caller parse_x509 (sv_req x) = Some c \<and> b < length (trackers (mem (sys s)))
      \<and> lp_inner path = JobTracker_track (Job_started (JobId (lreq_job_id (message (sv_req x)))) (ctx_user c) p now) b b
      \<and> final (waited path) = Some (trackers (mem (sys s)) ! b)
      \<and> (\<forall>k. prefix (written k (effects (copied kind path))) (child_bytes path k))"
proof -
  let ?b = "sv_bcast x" and ?path = "path_of (tasks s ! sv_bcast x) x"
  from log_reachable_inv [OF reach] x have len: "?b < length (trackers (mem (sys s)))"
    and tasks: "tasks_ok (mem (sys s)) ?b (tasks s ! ?b)" and served: "served_ok parse_x509 kind fmt (tasks s ! ?b) x"
    by (auto simp: log_inv_def)
  from tasks obtain i u p now where inner: "lp_inner (tasks s ! ?b) = JobTracker_track (Job_started i u p now) ?b ?b"
    and wait: "final (waited (tasks s ! ?b)) = Some (trackers (mem (sys s)) ! ?b)"
    by (auto simp: tasks_ok_def)
  from served inner obtain c where c: "caller parse_x509 (sv_req x) = Some c"
    and u: "u = ctx_user c" and i: "i = JobId (lreq_job_id (message (sv_req x)))"
    by (auto simp: served_ok_def JobTracker_track_def Job_started_def)
  from tasks served wait have "all_run kind fmt ?path" and "wired fmt ?path"
    unfolding all_run_def wired_def all_streams by (auto simp: tasks_ok_def served_ok_def final_def)
  then have "prefix (written k (effects (copied kind ?path))) (child_bytes ?path k)" for k
  proof -
    from served obtain pc where "copied kind ?path = Some (pc, effects (copied kind ?path))"
      unfolding served_ok_def using effects_run by blast
    with \<open>all_run kind fmt ?path\<close> \<open>wired fmt ?path\<close> show ?thesis by (rule output_prefix [OF _ _ kind])
  qed
  with c len inner u i wait show ?thesis unfolding Let_def by (intro exI [of _ c] exI [of _ p] exI [of _ now]) simp
qed

text \<open>
  User b starts the job k, which writes two bytes; its log is asked for, sent and printed.
\<close>

definition job_k :: "nat tracker_inner" where
  "job_k = JobTracker_track (Job_started (JobId ''k'') \<lparr>user_id = ''b''\<rparr> (Pid 43) 1) 0 0"

definition reads_k :: "consume_event list" where
  "reads_k = [ReadDone (Inr ([104, 105] @ replicate 1022 0, 2)), SendDone True]"

definition frame_k :: frame where "frame_k = Frame_new Stdout [104, 105]"

definition waits_k :: "nat wait_event list" where "waits_k = [StreamRecv Stdout (Some (Inr frame_k)) True]"

definition bcasts_k :: "bcast_event list" where
  "bcasts_k = [FrameRecv (Some (FrameEv frame_k)) (\<lambda>r. True), ReqRecv (Some True)]"

definition log_at ::
  "consume_event list \<Rightarrow> nat wait_event list \<Rightarrow> bcast_event list \<Rightarrow> served list \<Rightarrow> nat log_system" where
  "log_at rs ws bs xs =
     \<lparr>sys = sample_system 1, tasks = [(net_start job_k)\<lparr>lp_out_reads := rs, lp_wait := ws, lp_bcast := bs\<rparr>],
      streams = xs\<rparr>"

definition stream_k :: "relay_event list \<Rightarrow> forward_event list \<Rightarrow> client_event list \<Rightarrow> served" where
  "stream_k es fwd copy =
     \<lparr>sv_req = sample_request (Some [[98]]) (LogsRequest ''k''), sv_bcast = 0, sv_relay = 0,
      sv_snapshot = [FrameEv frame_k], sv_relayed = es, sv_fwd = fwd, sv_client = copy\<rparr>"

abbreviation "k_step \<equiv> log_step sample_parse sample_child_spawn id sample_kind (\<lambda>e. [])"

lemma log_at_sel [simp]:
  "length (tasks (log_at rs ws bs xs)) = 1" "streams (log_at rs ws bs xs) = xs"
  "lp_inner (tasks (log_at rs ws bs xs) ! 0) = job_k" "lp_wait (tasks (log_at rs ws bs xs) ! 0) = ws"
  "lp_bcast (tasks (log_at rs ws bs xs) ! 0) = bs"
  "reads (tasks (log_at rs ws bs xs) ! 0) k = (if k = Stdout then rs else [])"
  "trackers (mem (sys (log_at rs ws bs xs))) = [wait_start job_k]"
  "jobs (mem (sys (log_at rs ws bs xs))) = [JobId ''k'' \<mapsto> 0]"
  by (cases k; simp add: log_at_def net_start_def sample_system_def job_k_def Let_def)+

lemma k_consumed:
  "consume_output Stdout [] = Some (Reading, [])"
  "consume_output Stdout [hd reads_k] = Some (SendFrame frame_k, [])"
  "consume_output Stdout reads_k = Some (Reading, [Inr frame_k])"
  by (simp_all add: consume_output_def reads_k_def frame_k_def)

lemma k_waited: "JobTracker_wait job_k waits_k = Some (wait_start job_k, [ToBcast (FrameEv frame_k)])"
  by (simp add: JobTracker_wait_def waits_k_def wait_step.simps wait_start_def on_stream_def loop_top_def)

lemma k_bcasted:
  "FrameBroadcaster_bcast [] = Some (bcast_start, [])"
  "\<exists>st. FrameBroadcaster_bcast [hd bcasts_k] = Some (st, [])"
  "\<exists>st. FrameBroadcaster_bcast bcasts_k = Some (st, [StartRelay 0 [FrameEv frame_k]])"
  by (simp_all add: FrameBroadcaster_bcast_def bcasts_k_def bcast_step.simps bcast_start_def FrameRelay_start_def)

lemma k_spawn: "k_step log_start (log_at [] [] [] [])"
proof -
  have start: "mem (sys log_start) = mem (sample_system 0)"
    by (simp add: log_start_def sample_system_def)
  have "MemoryCoordinator_spawn sample_child_spawn id ''k'' 1 (mem (sys log_start)) (ctx_of ''b'')
      (JobSpec_new id ''true'')
    = (mem (sample_system 1), Ret (Inr (Job_started (JobId ''k'') \<lparr>user_id = ''b''\<rparr> (Pid 43) 1)))"
    unfolding start
    by (simp add: sample_system_def system_start_def MemoryCoordinator_default_def Let_def
          MemoryCoordinator_spawn_def sample_child_spawn_def Opts_new_def JobSpec_new_def
          JobId_default_def ctx_of_def)
  from log_step.spawn_call [OF this] show ?thesis
    by (simp add: log_start_def log_at_def sample_system_def system_start_def start_tasks_def net_start_def
          wait_start_def job_k_def Let_def)
qed

lemma k_read: "k_step (log_at [] [] [] []) (log_at [hd reads_k] [] [] [])"
  using log_step.read_move [of 0 "log_at [] [] [] []" "hd reads_k" Stdout] k_consumed(2)
  by (simp add: reads_k_def log_at_def net_start_def add_read_def)

lemma k_send: "k_step (log_at [hd reads_k] [] [] []) (log_at reads_k [] [] [])"
  using log_step.read_move [of 0 "log_at [hd reads_k] [] [] []" "SendDone True" Stdout] k_consumed(3)
  by (simp add: reads_k_def log_at_def net_start_def add_read_def)

lemma k_wait: "k_step (log_at reads_k [] [] []) (log_at reads_k waits_k [] [])"
proof -
  have step: "wait_step (trackers (mem (sys (log_at reads_k [] [] []))) ! 0) (hd waits_k)
      = Some (wait_start job_k, [ToBcast (FrameEv frame_k)])"
    by (simp add: waits_k_def wait_step.simps wait_start_def on_stream_def loop_top_def)
  have "next_in (stream_item k (hd waits_k)) (effects (consumed (tasks (log_at reads_k [] [] []) ! 0) k))
      (taken (tasks (log_at reads_k [] [] []) ! 0) k)" for k
    by (simp add: waits_k_def next_in_def waiting_def k_consumed)
  note log_step.wait_move [OF _ step this, of sample_parse sample_child_spawn id sample_kind "\<lambda>e. []"]
  then show ?thesis
    by (simp add: waits_k_def log_at_def update_tracker_def net_start_def sample_system_def job_k_def Let_def)
qed

lemma k_bcast: "k_step (log_at reads_k waits_k [] []) (log_at reads_k waits_k [hd bcasts_k] [])"
proof -
  let ?t = "tasks (log_at reads_k waits_k [] []) ! 0"
  have "next_in (source_event (hd bcasts_k)) (tracked ?t) (logged ?t)"
    by (simp add: bcasts_k_def next_in_def waiting_def k_waited)
  moreover have "add_bcast (hd bcasts_k) ?t = Some (?t\<lparr>lp_bcast := [hd bcasts_k]\<rparr>)"
    using k_bcasted(2) by (auto simp: add_bcast_def Let_def)
  ultimately have "k_step (log_at reads_k waits_k [] []) ((log_at reads_k waits_k [] [])\<lparr>tasks :=
      (tasks (log_at reads_k waits_k [] []))[0 := ?t\<lparr>lp_bcast := [hd bcasts_k]\<rparr>]\<rparr>)"
    by (intro log_step.bcast_move) simp_all
  then show ?thesis by (simp add: log_at_def net_start_def)
qed

lemma k_ask: "k_step (log_at reads_k waits_k [hd bcasts_k] []) (log_at reads_k waits_k bcasts_k [])"
proof -
  let ?s = "log_at reads_k waits_k [hd bcasts_k] []"
  let ?t = "tasks (log_at reads_k waits_k [hd bcasts_k] []) ! 0"
  have two: "[hd bcasts_k, ReqRecv (Some True)] = bcasts_k" by (simp add: bcasts_k_def)
  have "add_bcast (ReqRecv (Some True)) ?t = Some (?t\<lparr>lp_bcast := bcasts_k\<rparr>)"
    using k_bcasted(3) by (auto simp: add_bcast_def Let_def two)
  then have "k_step ?s (?s\<lparr>tasks := (tasks ?s)[0 := ?t\<lparr>lp_bcast := bcasts_k\<rparr>]\<rparr>)"
    by (intro log_step.bcast_move) (simp_all add: next_in_def)
  then show ?thesis by (simp add: log_at_def net_start_def)
qed

lemma k_logs: "k_step (log_at reads_k waits_k bcasts_k []) (log_at reads_k waits_k bcasts_k [stream_k [] [] []])"
proof -
  let ?s = "log_at reads_k waits_k bcasts_k []"
  have found: "get_tracker (mem (sys ?s)) (ctx_of ''b'') (JobId ''k'')
      = Inr (0, Job_started (JobId ''k'') \<lparr>user_id = ''b''\<rparr> (Pid 43) 1)"
    by (simp add: get_tracker_def JobTracker_job_def tracker_inner_of_def wait_start_def job_k_def
          JobTracker_track_def ctx_of_def Let_def)
  have "ti_bcast (tracker_inner_of (mem (sys ?s)) 0) = 0"
    by (simp add: tracker_inner_of_def wait_start_def job_k_def JobTracker_track_def)
  moreover have "bcast_answer (tasks ?s) (\<lambda>b. Some 0) 0 = Received (0, 0, [FrameEv frame_k])"
    using k_bcasted(3) by (auto simp: bcast_answer_def)
  ultimately have "MemoryCoordinator_logs (\<lambda>b. True) (bcast_answer (tasks ?s) (\<lambda>b. Some 0)) (mem (sys ?s))
      (ctx_of ''b'') (JobId ''k'') = Inr (0, 0, [FrameEv frame_k])"
    by (simp add: MemoryCoordinator_logs_def found JobTracker_stream_logs_def FrameBroadcaster_stream_def)
  then have "serve_logs sample_parse (MemoryCoordinator_logs (\<lambda>b. True) (bcast_answer (tasks ?s) (\<lambda>b. Some 0)))
      (mem (sys ?s)) (sample_request (Some [[98]]) (LogsRequest ''k'')) = Inr (0, 0, [FrameEv frame_k])"
    by (simp add: serve_logs_def with_interceptor_accept Store_logs_def)
  from log_step.logs_call [OF this] show ?thesis by (simp add: log_at_def stream_k_def)
qed

text \<open>Below the broadcaster.\<close>

lemma stream_k_sel [simp]:
  "sv_bcast (stream_k es fwd copy) = 0" "sv_relay (stream_k es fwd copy) = 0"
  "sv_snapshot (stream_k es fwd copy) = [FrameEv frame_k]" "sv_relayed (stream_k es fwd copy) = es"
  "sv_fwd (stream_k es fwd copy) = fwd" "sv_client (stream_k es fwd copy) = copy"
  "(stream_k es fwd copy)\<lparr>sv_relayed := es'\<rparr> = stream_k es' fwd copy"
  "(stream_k es fwd copy)\<lparr>sv_fwd := fwd'\<rparr> = stream_k es fwd' copy"
  "(stream_k es fwd copy)\<lparr>sv_client := copy'\<rparr> = stream_k es fwd copy'"
  by (simp_all add: stream_k_def)

lemma k_relayed: "\<exists>st. FrameRelay_relay [FrameEv frame_k] [ClientSend True] = Some (st, [FrameEv frame_k])"
  by (simp add: FrameRelay_relay_def relay_step.simps relay_start_def relay_top_def)

lemma k_forwarded: "Store_forward fmt [LogRecv (Some (FrameEv frame_k)) True] = Some (FwdLoop, [Inr (LogFrame_from frame_k)])"
  by (simp add: Store_forward_def)

lemma k_copied:
  "client_logs sample_kind [Message (Inr (Some (LogFrame_from frame_k))) Written]
     = Some (Streaming, [Wrote Stdout [104, 105]])"
  by (simp add: client_logs_def sample_kind_def write_frame_def LogFrame_from_def frame_k_def)

abbreviation "served_k x \<equiv> log_at reads_k waits_k bcasts_k [x]"

lemma k_relay: "k_step (served_k (stream_k [] [] [])) (served_k (stream_k [ClientSend True] [] []))"
proof -
  have "closed_only_unheld relay_step relay_closes relay_holds (relay_start [FrameEv frame_k]) [ClientSend True]"
    by (rule closed_only_unheldI) (simp add: relay_closes_def)
  moreover have "add_relayed (ClientSend True) (path_of (tasks (served_k (stream_k [] [] [])) ! 0) (stream_k [] [] [])) \<noteq> None"
    using k_relayed by (auto simp: add_relayed_def Let_def path_of_def)
  ultimately show ?thesis
    using log_step.relay_move [of 0 "served_k (stream_k [] [] [])" "stream_k [] [] []" _ "ClientSend True"
        sample_parse sample_child_spawn id sample_kind "\<lambda>e. []"]
    by (simp add: next_in_def) (simp add: log_at_def)
qed

lemma k_forward:
  "k_step (served_k (stream_k [ClientSend True] [] []))
     (served_k (stream_k [ClientSend True] [LogRecv (Some (FrameEv frame_k)) True] []))"
proof -
  let ?x = "stream_k [ClientSend True] [] []"
  let ?p = "path_of (tasks (served_k ?x) ! 0) ?x" and ?e = "LogRecv (Some (FrameEv frame_k)) True"
  have "relay_out ?p = [FrameEv frame_k]" using k_relayed by auto
  then have "next_in (log_event ?e) (relay_out ?p) (fetched ?p)" by (simp add: next_in_def waiting_def)
  moreover have "add_fwd (\<lambda>e. []) ?e ?p \<noteq> None"
    using k_forwarded by (simp add: add_fwd_def Let_def path_of_def)
  ultimately show ?thesis
    using log_step.forward_move [of 0 "served_k ?x" ?x ?p ?e "\<lambda>e. []" sample_parse sample_child_spawn id sample_kind]
    by (simp add: log_at_def)
qed

definition printed_k :: served where
  "printed_k = stream_k [ClientSend True] [LogRecv (Some (FrameEv frame_k)) True]
     [Message (Inr (Some (LogFrame_from frame_k))) Written]"

lemma k_client: "k_step (served_k (stream_k [ClientSend True] [LogRecv (Some (FrameEv frame_k)) True] [])) (served_k printed_k)"
proof -
  let ?x = "stream_k [ClientSend True] [LogRecv (Some (FrameEv frame_k)) True] []"
  let ?p = "path_of (tasks (served_k ?x) ! 0) ?x" and ?e = "Message (Inr (Some (LogFrame_from frame_k))) Written"
  have "answers (\<lambda>e. []) ?p = [Inr (LogFrame_from frame_k)]" using k_forwarded [of "\<lambda>e. []"] by simp
  then have "next_in (item_of ?e) (answers (\<lambda>e. []) ?p) (printed ?p)" by (simp add: next_in_def waiting_def)
  moreover have "add_client sample_kind ?e ?p \<noteq> None"
    using k_copied by (simp add: add_client_def Let_def path_of_def)
  ultimately show ?thesis
    using log_step.client_move [of 0 "served_k ?x" ?x ?p ?e "\<lambda>e. []" sample_kind sample_parse sample_child_spawn id]
    by (simp add: log_at_def printed_k_def)
qed

lemma k_reachable: "log_reachable sample_parse sample_child_spawn id sample_kind (\<lambda>e. []) (served_k printed_k)"
proof -
  note step = log_reachable.log_by_step
  have "log_reachable sample_parse sample_child_spawn id sample_kind (\<lambda>e. []) (log_at reads_k waits_k bcasts_k [])"
    by (rule step [OF step [OF step [OF step [OF step [OF step [OF log_reachable.log_at_start
          k_spawn] k_read] k_send] k_wait] k_bcast] k_ask])
  from step [OF step [OF step [OF step [OF this k_logs] k_relay] k_forward] k_client] show ?thesis .
qed

lemma readers_own_the_job_witness:
  "caller sample_parse (sv_req printed_k) = Some (ctx_of ''b'')
   \<and> written Stdout (effects (copied sample_kind (path_of (tasks (served_k printed_k) ! 0) printed_k))) = [104, 105]
   \<and> prefix [104, 105] (child_bytes (path_of (tasks (served_k printed_k) ! 0) printed_k) Stdout)"
proof -
  have out: "written Stdout (effects (copied sample_kind (path_of (tasks (served_k printed_k) ! 0) printed_k))) = [104, 105]"
    using k_copied by (simp add: printed_k_def)
  have mem: "printed_k \<in> set (streams (served_k printed_k))" and b: "sv_bcast printed_k = 0"
    by (simp_all add: printed_k_def)
  from readers_own_the_job [OF k_reachable mem sample_kind_getter, unfolded Let_def b]
  have "prefix (written Stdout (effects (copied sample_kind (path_of (tasks (served_k printed_k) ! 0) printed_k))))
      (child_bytes (path_of (tasks (served_k printed_k) ! 0) printed_k) Stdout)" by blast
  moreover have "caller sample_parse (sv_req printed_k) = Some (ctx_of ''b'')"
    by (simp add: printed_k_def stream_k_def)
  ultimately show ?thesis unfolding out by blast
qed

end
