(* ===== verification/NetInvariant.thy ===== *)
theory NetInvariant
  imports Pipeline
begin

text \<open>
  The invariant of the closed system of \<open>Pipeline\<close>, that every move keeps it, and the bound on
  the number of moves.
\<close>

section \<open>The invariant\<close>

text \<open>
  \<open>net_good\<close>: every send has succeeded; \<open>net_runs\<close>: every history is one of its task;
  \<open>net_links\<close>: the channels are queues; \<open>net_ends\<close>: an end is seen only after everything
  before it; \<open>net_gone\<close>: what happens only after the tracker has returned; \<open>net_src\<close>: the
  answers come from the environment; \<open>net_sub\<close>: the one request for the log.
\<close>

definition net_good :: "'dt log_path \<Rightarrow> bool" where
  "net_good p \<longleftrightarrow>
     list_all good_wait (lp_wait p) \<and> list_all good_bcast (lp_bcast p)
     \<and> list_all good_relay (lp_relayed p) \<and> list_all good_fwd (lp_fwd p)
     \<and> list_all good_client (lp_client p)"

definition net_runs :: "'dt net_env \<Rightarrow> 'dt log_path \<Rightarrow> bool" where
  "net_runs env p \<longleftrightarrow>
     (\<forall>k. script_inv k (ne_script env k) (ne_fail env k) (reads p k)) \<and> waited p \<noteq> None
     \<and> bcasted p \<noteq> None \<and> relayed p \<noteq> None \<and> forwarded (ne_fmt env) p \<noteq> None
     \<and> copied (ne_kind env) p \<noteq> None"

definition net_links :: "'dt net_env \<Rightarrow> 'dt log_path \<Rightarrow> bool" where
  "net_links env p \<longleftrightarrow>
     (\<forall>k. fifo (effects (consumed p k)) (taken p k)) \<and> fifo (tracked p) (logged p)
     \<and> fifo (offered p) (queued p) \<and> fifo (relay_out p) (fetched p)
     \<and> fifo (answers (ne_fmt env) p) (printed p)"

definition net_ends :: "'dt net_env \<Rightarrow> 'dt log_path \<Rightarrow> bool" where
  "net_ends env p \<longleftrightarrow>
     (\<forall>k sent. StreamRecv k None sent \<in> set (lp_wait p) \<longrightarrow>
        final (consumed p k) = Some Consumed \<and> taken p k = effects (consumed p k)
        \<and> SendDone False \<notin> set (reads p k))
     \<and> (list_ex no_more (lp_client p) \<longrightarrow>
        final (forwarded (ne_fmt env) p) = Some FwdDone \<and> printed p = answers (ne_fmt env) p)"

definition net_gone :: "'dt log_path \<Rightarrow> bool" where
  "net_gone p \<longleftrightarrow>
     (\<forall>k. SendDone False \<in> set (reads p k) \<longrightarrow> tracker_gone p)
     \<and> (list_ex source_end (lp_bcast p) \<longrightarrow> tracker_gone p \<and> logged p = tracked p)"

definition net_src :: "'dt net_env \<Rightarrow> 'dt log_path \<Rightarrow> bool" where
  "net_src env p \<longleftrightarrow>
     (\<forall>res now. ChildWait res now \<in> set (lp_wait p) \<longrightarrow> res = ne_exit env \<and> now = ne_now env)
     \<and> kills_taken p \<le> length (ne_kills env)"

definition net_sub :: "'dt log_path \<Rightarrow> bool" where
  "net_sub p \<longleftrightarrow>
     lp_relay p = 0 \<and> requests (lp_bcast p) = of_bool (subscribed p)
     \<and> (if subscribed p then StartRelay 0 (lp_snapshot p) \<in> set (effects (bcasted p))
        else lp_snapshot p = [] \<and> lp_relayed p = [])"

text \<open>The channel of the relay holds at most as many events as fit, and only then one is refused.\<close>

definition net_caps :: "'dt log_path \<Rightarrow> bool" where
  "net_caps p \<longleftrightarrow>
     length (offered p) \<le> relay_cap + length (queued p)
     \<and> (refused 0 (effects (bcasted p)) \<longrightarrow> relay_cap < length (logged p))"

definition net_inv :: "'dt net_env \<Rightarrow> 'dt log_path \<Rightarrow> bool" where
  "net_inv env p \<longleftrightarrow>
     net_good p \<and> net_runs env p \<and> net_links env p \<and> net_ends env p \<and> net_gone p
     \<and> net_src env p \<and> net_sub p \<and> net_caps p"

lemmas net_inv_defs =
  net_good_def net_runs_def net_links_def net_ends_def net_gone_def net_src_def net_sub_def net_caps_def

section \<open>Every move keeps the invariant\<close>

lemma reads_update [simp]:
  "reads (p\<lparr>lp_wait := a\<rparr>) k = reads p k" "reads (p\<lparr>lp_bcast := b\<rparr>) k = reads p k"
  "reads (p\<lparr>lp_relay := r\<rparr>) k = reads p k" "reads (p\<lparr>lp_snapshot := fs\<rparr>) k = reads p k"
  "reads (p\<lparr>lp_relayed := c\<rparr>) k = reads p k" "reads (p\<lparr>lp_fwd := d\<rparr>) k = reads p k"
  "reads (p\<lparr>lp_client := g\<rparr>) k = reads p k"
  by (cases k; simp)+

lemma add_read_simps [simp]:
  "reads (add_read k e p) k' = (if k' = k then reads p k @ [e] else reads p k')"
  "lp_inner (add_read k e p) = lp_inner p" "lp_wait (add_read k e p) = lp_wait p"
  "lp_bcast (add_read k e p) = lp_bcast p" "lp_relay (add_read k e p) = lp_relay p"
  "lp_snapshot (add_read k e p) = lp_snapshot p" "lp_relayed (add_read k e p) = lp_relayed p"
  "lp_fwd (add_read k e p) = lp_fwd p" "lp_client (add_read k e p) = lp_client p"
  by (cases k; cases k'; simp add: add_read_def)+

lemma subscribed_simps [simp]:
  "subscribed (add_read k e p) = subscribed p"
  "subscribed (p\<lparr>lp_wait := a\<rparr>) = subscribed p" "subscribed (p\<lparr>lp_relayed := c\<rparr>) = subscribed p"
  "subscribed (p\<lparr>lp_fwd := d\<rparr>) = subscribed p" "subscribed (p\<lparr>lp_client := g\<rparr>) = subscribed p"
  "subscribed (p\<lparr>lp_bcast := b @ [ev]\<rparr>) \<longleftrightarrow> subscribed (p\<lparr>lp_bcast := b\<rparr>) \<or> is_request ev"
  by (auto simp: subscribed_def)

lemma tracker_simps [simp]:
  "tracker_gone (add_read k e p) = tracker_gone p" "kills_taken (add_read k e p) = kills_taken p"
  "tracker_gone (p\<lparr>lp_bcast := b\<rparr>) = tracker_gone p" "kills_taken (p\<lparr>lp_bcast := b\<rparr>) = kills_taken p"
  "tracker_gone (p\<lparr>lp_relay := r\<rparr>) = tracker_gone p" "kills_taken (p\<lparr>lp_relay := r\<rparr>) = kills_taken p"
  "tracker_gone (p\<lparr>lp_snapshot := fs\<rparr>) = tracker_gone p" "kills_taken (p\<lparr>lp_snapshot := fs\<rparr>) = kills_taken p"
  "tracker_gone (p\<lparr>lp_relayed := c\<rparr>) = tracker_gone p" "kills_taken (p\<lparr>lp_relayed := c\<rparr>) = kills_taken p"
  "tracker_gone (p\<lparr>lp_fwd := d\<rparr>) = tracker_gone p" "kills_taken (p\<lparr>lp_fwd := d\<rparr>) = kills_taken p"
  "tracker_gone (p\<lparr>lp_client := g\<rparr>) = tracker_gone p" "kills_taken (p\<lparr>lp_client := g\<rparr>) = kills_taken p"
  by (simp_all add: tracker_gone_def kills_taken_def)

lemma consume_output_grows:
  assumes "script_inv k cs fail (es @ [e])"
  obtains out' where "effects (consume_output k (es @ [e])) = effects (consume_output k es) @ out'"
  using assms
  by (auto simp: script_inv_def consume_output_snoc effects_def split: option.splits)

lemma consume_next_script:
  assumes inv: "script_inv k (ne_script env k) (ne_fail env k) (reads p k)"
    and e: "consume_next env k p = Some e" and ok: "script_ok env"
  shows "script_inv k (ne_script env k) (ne_fail env k) (reads p k @ [e])"
    and "final (consumed p k) \<noteq> Some Consumed" and "e = SendDone False \<Longrightarrow> tracker_gone p"
proof -
  have cs: "list_all (\<lambda>c. 1 \<le> length c \<and> length c \<le> 1024) (ne_script env k)"
    using ok by (cases k) (auto simp: script_ok_def)
  from e consider
      (read) "final (consumed p k) = Some Reading" "e = next_read (ne_script env k) (ne_fail env k) (reads p k)"
    | (send) ok where "(\<exists>f. final (consumed p k) = Some (SendFrame f)) \<or> (\<exists>err. final (consumed p k) = Some (SendErr err))"
        "e = SendDone ok" "\<not> ok \<longrightarrow> tracker_gone p"
    by (auto simp: consume_next_def send_next_def split: option.splits consume_pc.splits if_splits)
  then have "script_inv k (ne_script env k) (ne_fail env k) (reads p k @ [e])
      \<and> (e = SendDone False \<longrightarrow> tracker_gone p)"
  proof cases
    case read
    with script_read [OF inv read(1) cs] show ?thesis
      by (auto simp: next_read_def Let_def split: if_splits option.splits)
  next
    case (send ok)
    with script_send [OF inv send(1)] show ?thesis by auto
  qed
  then show "script_inv k (ne_script env k) (ne_fail env k) (reads p k @ [e])"
    and "e = SendDone False \<Longrightarrow> tracker_gone p" by blast+
  from e show "final (consumed p k) \<noteq> Some Consumed" by (auto simp: consume_next_def)
qed

lemma inv_consume:
  assumes inv: "net_inv env p" and ok: "script_ok env" and e: "consume_next env k p = Some e"
  shows "net_inv env (add_read k e p)"
proof -
  from inv have script: "\<And>k. script_inv k (ne_script env k) (ne_fail env k) (reads p k)"
    by (simp add: net_inv_def net_runs_def)
  note next' = consume_next_script [OF script e ok]
  obtain out' where out': "effects (consume_output k (reads p k @ [e])) = effects (consumed p k) @ out'"
    by (rule consume_output_grows [OF next'(1)])
  from inv have "net_links env (add_read k e p)"
    by (auto simp: net_inv_def net_links_def out')
  moreover from inv next'(2) have "net_ends env (add_read k e p)"
    by (auto simp: net_inv_def net_ends_def)
  moreover from inv next'(3) have "net_gone (add_read k e p)"
    by (auto simp: net_inv_def net_gone_def)
  ultimately show ?thesis
    using inv next'(1)
    by (auto simp: net_inv_def net_good_def net_runs_def net_src_def net_sub_def net_caps_def)
qed

lemma not_gone:
  assumes "waited p = Some (st, out)" and "wait_step st e = Some (st', out')"
  shows "\<not> tracker_gone p"
  using assms by (auto simp: tracker_gone_def elim: wait_step_cases)

lemma inv_wait:
  assumes inv: "net_inv env p" and q: "add_wait e p = Some q" and good: "good_wait e"
    and item: "\<And>k x. stream_item k e = Some x \<Longrightarrow> waiting (effects (consumed p k)) (taken p k) = Some x"
    and close: "\<And>k sent. e = StreamRecv k None sent \<Longrightarrow>
        final (consumed p k) = Some Consumed \<and> waiting (effects (consumed p k)) (taken p k) = None"
    and child: "\<And>res now. e = ChildWait res now \<Longrightarrow> res = ne_exit env \<and> now = ne_now env"
    and kills: "received_req e \<noteq> None \<Longrightarrow> kills_taken p < length (ne_kills env)"
  shows "net_inv env q"
proof -
  from q obtain st out st' out' where q': "q = p\<lparr>lp_wait := lp_wait p @ [e]\<rparr>" and p: "waited p = Some (st, out)"
    and step: "wait_step st e = Some (st', out')" and w: "waited q = Some (st', out @ out')"
    by (rule add_waitE)
  note alive = not_gone [OF p step]
  from inv have links: "net_links env p" and ends: "net_ends env p" and gone: "net_gone p"
    by (simp_all add: net_inv_def)
  with alive have sends: "SendDone False \<notin> set (reads p k)" for k by (auto simp: net_gone_def)
  have "fifo (effects (consumed p k)) (taken q k)" for k
    using links item [of k] by (cases "stream_item k e") (auto simp: q' net_links_def intro: fifo_waiting)
  with links have "net_links env q"
    by (auto simp: net_links_def w p) (simp_all add: q')
  moreover have "net_ends env q"
  proof -
    have "final (consumed q k) = Some Consumed \<and> taken q k = effects (consumed q k)"
      if "StreamRecv k None sent \<in> set (lp_wait q)" for k sent
    proof (cases "StreamRecv k None sent = e")
      case True
      with close [of k sent] links fifo_empty [of "effects (consumed p k)"] show ?thesis
        by (auto simp: q' net_links_def)
    next
      case False
      with that ends have end': "final (consumed p k) = Some Consumed" "taken p k = effects (consumed p k)"
        by (auto simp: q' net_ends_def)
      then have "stream_item k e = None"
        using item [of k] by (cases "stream_item k e") (auto simp: waiting_def)
      with end' show ?thesis by (simp add: q')
    qed
    with ends sends show ?thesis by (auto simp: net_ends_def q')
  qed
  moreover have "net_gone q" using gone alive sends by (auto simp: net_gone_def q')
  moreover have "net_src env q"
    using inv child kills by (auto simp: net_inv_def net_src_def q' kills_taken_def split: option.splits)
  moreover have "net_runs env q" using inv w by (simp add: net_inv_def net_runs_def q')
  ultimately show ?thesis
    using inv good by (auto simp: net_inv_def net_good_def net_sub_def net_caps_def q')
qed

text \<open>What the invariant says of single tasks.\<close>

lemma net_waited:
  assumes "net_inv env p"
  obtains st where "waited p = Some (st, effects (waited p))" and "wait_good_inv (lp_wait p) (effects (waited p)) st"
    and "list_all good_wait (lp_wait p)"
  using assms waiter_good.run_inv
  by (force simp: net_inv_def net_runs_def net_good_def JobTracker_wait_def)

lemma net_bcasted:
  assumes "net_inv env p"
  obtains st where "bcasted p = Some (st, effects (bcasted p))" and "snapshot_inv (lp_bcast p) (effects (bcasted p)) st"
    and "frame_rx_ok st \<longleftrightarrow> \<not> list_ex source_end (lp_bcast p)" and "req_rx_ok st"
    and "next_relay st = of_bool (subscribed p)"
    and "length (lp_bcast p) = length (logged p) + of_bool (subscribed p) + of_bool (list_ex source_end (lp_bcast p))"
proof -
  from assms obtain st where st: "bcasted p = Some (st, effects (bcasted p))"
    and good: "list_all good_bcast (lp_bcast p)" and sub: "requests (lp_bcast p) = of_bool (subscribed p)"
    by (auto simp: net_inv_def net_runs_def net_good_def net_sub_def)
  from st have "bcast_good_inv (lp_bcast p) (effects (bcasted p)) st"
    unfolding FrameBroadcaster_bcast_def by (rule bcast_good.run_inv)
  with good sub FrameBroadcaster_bcast_snapshot [OF st] st show thesis
    by (intro that) (auto simp: bcast_good_inv_def)
qed

lemma net_relayed:
  assumes "net_inv env p"
  obtains st where "relayed p = Some (st, relay_out p)" and "r_pc st = RLoop" and "ready st"
    and "relay_out p @ held st = lp_snapshot p @ queued p"
    and "length (lp_relayed p) = length (queued p) + length (relay_out p)"
proof -
  from assms obtain st where st: "relayed p = Some (st, relay_out p)" and good: "list_all good_relay (lp_relayed p)"
    by (auto simp: net_inv_def net_runs_def net_good_def)
  from st have "relay_good_inv (lp_relayed p) (relay_out p) st" and "ready st"
    unfolding FrameRelay_relay_def by (rule relay_good.run_inv, rule relay_ready.run_inv)
  with good FrameRelay_relay_inv [OF st] st show thesis
    by (intro that) (auto simp: relay_good_inv_def relay_inv_def Let_def)
qed

lemma net_forwarded [consumes 1, case_names going ended]:
  assumes "net_inv env p"
  obtains fs where "forwarded (ne_fmt env) p = Some (FwdLoop, items fs)" "fetched p = map FrameEv fs"
      "length (lp_fwd p) = length (fetched p)"
  | fs ev where "terminal ev" "forwarded (ne_fmt env) p = Some (FwdDone, items fs @ end_item (ne_fmt env) ev)"
      "fetched p = map FrameEv fs @ [ev]" "length (lp_fwd p) = length (fetched p)"
proof -
  from assms obtain pc where pc: "forwarded (ne_fmt env) p = Some (pc, answers (ne_fmt env) p)"
    and good: "list_all good_fwd (lp_fwd p)"
    by (auto simp: net_inv_def net_runs_def net_good_def)
  from pc have "forward_good_inv (ne_fmt env) (lp_fwd p) (answers (ne_fmt env) p) pc"
    unfolding Store_forward_def by (rule forwarder_good.run_inv)
  with good pc that show thesis by (cases pc) (auto simp: forward_good_inv_def)
qed

lemma net_copied:
  assumes "net_inv env p"
  obtains pc where "final (copied (ne_kind env) p) = Some pc"
    and "length (lp_client p) = length (printed p) + of_bool (list_ex no_more (lp_client p))"
    and "case pc of
           Streaming \<Rightarrow> \<not> list_ex no_more (lp_client p)
         | Stopped (Exit1 st) \<Rightarrow> Inl st \<in> set (printed p)
         | Stopped (Done u) \<Rightarrow> list_ex no_more (lp_client p) \<and> \<not> list_ex server_error (lp_client p)
         | Stopped (Bail msg) \<Rightarrow> False"
proof -
  from assms obtain pc where pc: "copied (ne_kind env) p = Some (pc, effects (copied (ne_kind env) p))"
    and good: "list_all good_client (lp_client p)"
    by (auto simp: net_inv_def net_runs_def net_good_def)
  from pc have "client_good_inv (lp_client p) (effects (copied (ne_kind env) p)) pc
      \<and> logs_inv (ne_kind env) (lp_client p) (effects (copied (ne_kind env) p)) pc"
    unfolding client_logs_def by (rule client_good.run_inv)
  moreover from pc have "final (copied (ne_kind env) p) = Some pc" by (simp only: final_eq_Some)
  ultimately show thesis using good
    by (intro that) (auto simp: client_good_inv_def logs_inv_def split: client_pc.splits cli.splits)
qed

lemma net_given:
  assumes inv: "net_inv env p"
  shows "subscribed p \<Longrightarrow> given 0 (effects (bcasted p)) = lp_snapshot p @ offered p"
    and "\<not> subscribed p \<Longrightarrow> offered p = []"
    and "prefix (given 0 (effects (bcasted p))) (logged p)"
    and "subscribed p \<Longrightarrow> \<not> refused 0 (effects (bcasted p)) \<Longrightarrow> given 0 (effects (bcasted p)) = logged p"
proof -
  obtain st where snap: "snapshot_inv (lp_bcast p) (effects (bcasted p)) st"
    and next_r: "next_relay st = of_bool (subscribed p)" by (rule net_bcasted [OF inv])
  from inv have r: "lp_relay p = 0" by (simp add: net_inv_def net_sub_def)
  from inv have sub: "subscribed p \<Longrightarrow> StartRelay 0 (lp_snapshot p) \<in> set (effects (bcasted p))"
    by (auto simp: net_inv_def net_sub_def)
  from snap have roster: "roster_inv (effects (bcasted p)) st"
    and str: "relay_stream (effects (bcasted p)) (logged p) 0"
    by (auto simp: snapshot_inv_def bcast_inv_def stream_inv_def)
  show "subscribed p \<Longrightarrow> given 0 (effects (bcasted p)) = lp_snapshot p @ offered p"
    using snap sub unfolding r by (simp add: snapshot_inv_def)
  show "prefix (given 0 (effects (bcasted p))) (logged p)"
    using str by (auto simp: relay_stream_def split: if_splits)
  show "offered p = []" if "\<not> subscribed p"
  proof -
    from that roster next_r have "\<not> started 0 (effects (bcasted p))" by (simp add: roster_inv_def)
    with str show ?thesis unfolding r by (simp add: relay_stream_def not_given)
  qed
  show "subscribed p \<Longrightarrow> \<not> refused 0 (effects (bcasted p)) \<Longrightarrow> given 0 (effects (bcasted p)) = logged p"
    using str sub by (auto simp: relay_stream_def started_def split: if_splits)
qed

lemma net_all_run: "net_inv env p \<Longrightarrow> all_run (ne_kind env) (ne_fmt env) p"
  unfolding all_run_def all_streams net_inv_def net_runs_def script_inv_def
  by (auto split: option.splits)

lemma net_wired: "net_inv env p \<Longrightarrow> subscribed p \<Longrightarrow> wired (ne_fmt env) p"
  unfolding wired_def all_streams net_inv_def
  by (auto simp: net_links_def net_sub_def net_good_def list_all_iff relay_closes_def
        dest!: bspec [of _ _ "BcastRecv None"] intro!: closed_only_unheldI)

lemma net_tracked:
  assumes "net_inv env p"
  obtains err where "tracked p = map FrameEv (merged p) @ (if tracker_gone p then [final_event err] else [])"
    and "\<And>e. err = Some e \<Longrightarrow> err_source (lp_wait p) e"
proof -
  obtain st where st: "waited p = Some (st, effects (waited p))"
    and good: "wait_good_inv (lp_wait p) (effects (waited p)) st" "list_all good_wait (lp_wait p)"
    by (rule net_waited [OF assms])
  from st have "final (waited p) = Some st" by (simp only: final_eq_Some)
  then have "tracker_gone p \<longleftrightarrow> w_pc st = Complete" by (simp add: tracker_gone_def)
  with good show thesis by (intro that [of "loop_err st"]) (auto simp: wait_good_inv_def merged_def)
qed

lemma net_relay_out:
  assumes inv: "net_inv env p"
  shows "prefix (relay_out p) (tracked p)"
proof (cases "subscribed p")
  case True
  from relay_events [OF net_all_run [OF inv] net_wired [OF inv True]] show ?thesis .
next
  case False
  with inv net_given(2) [OF inv] have "lp_relayed p = []" and "lp_snapshot p = []"
    by (auto simp: net_inv_def net_sub_def)
  then show ?thesis by (simp add: FrameRelay_relay_def)
qed

lemma offered_offer_all:
  assumes "distinct rs"
  shows "pick (offered_by r) (offer_all acc ev rs) = (if r \<in> set rs \<and> acc r then [ev] else [])"
  using assms given_no_start [of r "offer_all acc ev rs"] by simp

lemma offered_released [simp]: "pick (offered_by r) (map Released rs) = []"
  by (induction rs) simp_all

text \<open>The broadcaster takes an event, or learns that the tracker has returned.\<close>

lemma inv_bcast:
  assumes inv: "net_inv env p" and wait: "waiting (tracked p) (logged p) = Some ev"
    and q: "add_bcast (FrameRecv (Some ev) (relay_accepts p)) p = Some q"
  shows "net_inv env q"
proof -
  obtain st where st: "bcasted p = Some (st, effects (bcasted p))"
    and snap: "snapshot_inv (lp_bcast p) (effects (bcasted p)) st"
    and rx: "frame_rx_ok st \<longleftrightarrow> \<not> list_ex source_end (lp_bcast p)"
    by (rule net_bcasted [OF inv])
  let ?out' = "offer_all (relay_accepts p) ev (b_relays st)"
  from q st obtain st' where q': "q = p\<lparr>lp_bcast := lp_bcast p @ [FrameRecv (Some ev) (relay_accepts p)]\<rparr>"
    and b: "bcasted q = Some (st', effects (bcasted p) @ ?out')" and ok: "frame_rx_ok st"
    by (elim add_bcastE) (auto elim!: bcast_step_cases)
  from snap have roster: "roster_inv (effects (bcasted p)) st"
    by (simp add: snapshot_inv_def bcast_inv_def)
  then have dist: "distinct (b_relays st)" by (simp add: roster_inv_def)
  from inv have r: "lp_relay p = 0" and links: "net_links env p" and caps: "net_caps p"
    by (simp_all add: net_inv_def net_sub_def)
  from q' have sel: "reads q k = reads p k" "lp_inner q = lp_inner p" "lp_wait q = lp_wait p" "lp_relay q = 0"
    "lp_snapshot q = lp_snapshot p" "lp_relayed q = lp_relayed p" "lp_fwd q = lp_fwd p" "lp_client q = lp_client p"
    "logged q = logged p @ [ev]" "subscribed q = subscribed p" "requests (lp_bcast q) = requests (lp_bcast p)"
    "list_all good_bcast (lp_bcast q) = list_all good_bcast (lp_bcast p)"
    "tracker_gone q = tracker_gone p" "kills_taken q = kills_taken p" "\<not> list_ex source_end (lp_bcast q)" for k
    using r rx ok by simp_all
  have offered: "offered q = offered p @ (if 0 \<in> set (b_relays st) \<and> relay_accepts p 0 then [ev] else [])"
    using r by (simp add: sel b offered_offer_all [OF dist])
  from links wait have "net_links env q"
    unfolding net_links_def offered by (auto simp: sel fifo_waiting)
  moreover have "net_caps q"
  proof -
    have "relay_cap < Suc (length (logged p))" if "0 \<in> set (b_relays st)" and "\<not> relay_accepts p 0"
    proof -
      from that(2) r have "relay_cap \<le> length (offered p)" by (simp add: relay_accepts_def room_def)
      also from that(1) roster inv net_given(1) [OF inv] net_given(2) [OF inv] net_given(3) [OF inv]
      have "length (offered p) \<le> length (logged p)"
        by (cases "subscribed p") (auto dest!: prefix_length_le)
      finally show ?thesis by simp
    qed
    with caps r show ?thesis
      unfolding net_caps_def offered by (auto simp: sel b relay_accepts_def room_def)
  qed
  moreover have "net_sub q" using inv by (auto simp: net_inv_def net_sub_def b sel)
  moreover have "net_ends env q" "net_gone q" "net_src env q"
    using inv by (simp_all add: net_inv_def net_ends_def net_gone_def net_src_def sel)
  ultimately show ?thesis
    using inv by (simp add: net_inv_def net_good_def net_runs_def b sel)
qed

lemma inv_bcast_end:
  assumes inv: "net_inv env p" and gone: "tracker_gone p" and empty: "waiting (tracked p) (logged p) = None"
    and q: "add_bcast (FrameRecv None acc) p = Some q"
  shows "net_inv env q"
proof -
  from q obtain st rs where b: "bcasted q = Some (st, effects (bcasted p) @ map Released rs)"
    and q': "q = p\<lparr>lp_bcast := lp_bcast p @ [FrameRecv None acc]\<rparr>"
    by (elim add_bcastE) (auto elim!: bcast_step_cases)
  from inv have r: "lp_relay p = 0" and links: "net_links env p" by (simp_all add: net_inv_def net_sub_def)
  then have all: "logged p = tracked p" using empty by (auto simp: net_links_def dest: fifo_empty)
  from q' have sel: "reads q k = reads p k" "lp_inner q = lp_inner p" "lp_wait q = lp_wait p" "lp_relay q = 0"
    "lp_snapshot q = lp_snapshot p" "lp_relayed q = lp_relayed p" "lp_fwd q = lp_fwd p" "lp_client q = lp_client p"
    "logged q = logged p" "subscribed q = subscribed p" "requests (lp_bcast q) = requests (lp_bcast p)"
    "list_all good_bcast (lp_bcast q) = list_all good_bcast (lp_bcast p)"
    "tracker_gone q = tracker_gone p" "kills_taken q = kills_taken p" for k
    using r by simp_all
  have offered: "offered q = offered p" using r by (simp add: sel b)
  from links have "net_links env q" unfolding net_links_def offered by (simp add: sel)
  moreover have "net_gone q" using inv gone all by (simp add: net_inv_def net_gone_def sel)
  moreover have "net_caps q" using inv r unfolding net_inv_def net_caps_def offered by (simp add: sel b)
  moreover have "net_sub q" using inv by (auto simp: net_inv_def net_sub_def b sel)
  moreover have "net_ends env q" "net_src env q"
    using inv by (simp_all add: net_inv_def net_ends_def net_src_def sel)
  ultimately show ?thesis
    using inv by (simp add: net_inv_def net_good_def net_runs_def b sel)
qed

lemma inv_subscribe:
  assumes inv: "net_inv env p" and sub: "\<not> subscribed p" and p: "bcasted p = Some (st, out)"
    and q: "add_bcast (ReqRecv (Some True)) (p\<lparr>lp_relay := next_relay st, lp_snapshot := b_frames st\<rparr>) = Some q"
  shows "net_inv env q"
proof -
  obtain st' where "bcasted p = Some (st', effects (bcasted p))" "next_relay st' = of_bool (subscribed p)"
    by (rule net_bcasted [OF inv])
  with p sub have next_r: "next_relay st = 0" by auto
  with q p obtain st1 out' where q': "q = p\<lparr>lp_relay := 0, lp_snapshot := b_frames st, lp_bcast := lp_bcast p @ [ReqRecv (Some True)]\<rparr>"
    and b: "bcasted q = Some (st1, out @ out')"
    and out': "out' = [StartRelay 0 (b_frames st)] \<or> out' = [StartRelay 0 (b_frames st), Released 0]"
    by (elim add_bcastE) (auto elim!: bcast_step_cases)
  from inv sub have empty: "lp_relayed p = []" "lp_snapshot p = []" and r: "lp_relay p = 0"
    by (auto simp: net_inv_def net_sub_def)
  from q' have sel: "reads q k = reads p k" "lp_inner q = lp_inner p" "lp_wait q = lp_wait p" "lp_relay q = 0"
    "lp_snapshot q = b_frames st" "lp_relayed q = []" "lp_fwd q = lp_fwd p" "lp_client q = lp_client p"
    "logged q = logged p" "subscribed q" "requests (lp_bcast q) = Suc (requests (lp_bcast p))"
    "list_all good_bcast (lp_bcast q) = list_all good_bcast (lp_bcast p)"
    "list_ex source_end (lp_bcast q) = list_ex source_end (lp_bcast p)"
    "tracker_gone q = tracker_gone p" "kills_taken q = kills_taken p" for k
    using empty by simp_all
  have relay: "relay_out p = []" "relay_out q = []" "relayed q \<noteq> None"
    by (simp_all add: sel empty FrameRelay_relay_def)
  from out' have new: "pick (offered_by 0) out' = []" "refused 0 (out @ out') = refused 0 out"
    "StartRelay 0 (b_frames st) \<in> set out'" by auto
  from inv relay have "net_links env q"
    by (auto simp: net_inv_def net_links_def sel fifo_def)
  moreover have "net_sub q" using inv sub new by (simp add: net_inv_def net_sub_def b sel)
  moreover have "net_caps q" using inv p r empty new by (simp add: net_inv_def net_caps_def b sel)
  moreover have "net_ends env q" "net_gone q" "net_src env q"
    using inv by (simp_all add: net_inv_def net_ends_def net_gone_def net_src_def sel)
  ultimately show ?thesis
    using inv relay(3) by (simp add: net_inv_def net_good_def net_runs_def b sel)
qed

lemma inv_relay:
  assumes inv: "net_inv env p" and q: "add_relayed e p = Some q" and good: "good_relay e"
    and wait: "\<And>ev. bcast_frame e = Some ev \<Longrightarrow> waiting (offered p) (queued p) = Some ev"
  shows "net_inv env q"
proof -
  from q obtain st out st' out' where q': "q = p\<lparr>lp_relayed := lp_relayed p @ [e]\<rparr>" and p: "relayed p = Some (st, out)"
    and step: "relay_step st e = Some (st', out')" and r: "relayed q = Some (st', out @ out')"
    by (rule add_relayedE)
  have sub: "subscribed p"
  proof (rule ccontr)
    assume no: "\<not> subscribed p"
    with inv have "lp_relayed p = []" "lp_snapshot p = []" by (auto simp: net_inv_def net_sub_def)
    with p have "held st = []" and "r_pc st = RLoop" by (auto simp: FrameRelay_relay_def)
    with step good wait net_given(2) [OF inv no] show False
      by (cases rule: relay_step_cases) (auto simp: waiting_def held_def)
  qed
  from q' have sel: "reads q k = reads p k" "lp_inner q = lp_inner p" "lp_wait q = lp_wait p"
    "lp_bcast q = lp_bcast p" "lp_relay q = lp_relay p" "lp_snapshot q = lp_snapshot p"
    "lp_fwd q = lp_fwd p" "lp_client q = lp_client p" "subscribed q = subscribed p"
    "list_all good_relay (lp_relayed q) = list_all good_relay (lp_relayed p)"
    "tracker_gone q = tracker_gone p" "kills_taken q = kills_taken p" for k
    using good by simp_all
  note r = r [unfolded sel]
  from inv have "fifo (offered p) (queued p)" by (simp add: net_inv_def net_links_def)
  with wait have "fifo (offered p) (queued q)"
    by (cases "bcast_frame e") (auto simp: q' fifo_waiting)
  with inv p have "net_links env q" by (simp add: net_inv_def net_links_def r sel)
  moreover have "length (queued p) \<le> length (queued q)" by (simp add: q')
  with inv have "net_caps q" by (auto simp: net_inv_def net_caps_def sel)
  moreover have "net_ends env q" "net_gone q" "net_src env q"
    using inv by (simp_all add: net_inv_def net_ends_def net_gone_def net_src_def sel)
  ultimately show ?thesis
    using inv sub by (simp add: net_inv_def net_good_def net_runs_def net_sub_def r sel)
qed

lemma inv_fwd:
  assumes inv: "net_inv env p" and wait: "waiting (relay_out p) (fetched p) = Some ev"
    and q: "add_fwd (ne_fmt env) (LogRecv (Some ev) True) p = Some q"
  shows "net_inv env q"
proof -
  from q obtain st out st' out' where q': "q = p\<lparr>lp_fwd := lp_fwd p @ [LogRecv (Some ev) True]\<rparr>"
    and p: "forwarded (ne_fmt env) p = Some (st, out)"
    and step: "forward_step (ne_fmt env) st (LogRecv (Some ev) True) = Some (st', out')"
    and f: "forwarded (ne_fmt env) q = Some (st', out @ out')"
    by (rule add_fwdE)
  from q' have sel: "reads q k = reads p k" "lp_inner q = lp_inner p" "lp_wait q = lp_wait p"
    "lp_bcast q = lp_bcast p" "lp_relay q = lp_relay p" "lp_snapshot q = lp_snapshot p"
    "lp_relayed q = lp_relayed p" "lp_client q = lp_client p" "subscribed q = subscribed p"
    "fetched q = fetched p @ [ev]" "list_all good_fwd (lp_fwd q) = list_all good_fwd (lp_fwd p)"
    "tracker_gone q = tracker_gone p" "kills_taken q = kills_taken p" for k
    by simp_all
  from inv wait p have "net_links env q" by (simp add: net_inv_def net_links_def f sel fifo_waiting)
  moreover from step have "final (forwarded (ne_fmt env) p) \<noteq> Some FwdDone" by (cases st) (auto simp: p)
  with inv have "net_ends env q" by (auto simp: net_inv_def net_ends_def sel)
  moreover have "net_gone q" "net_src env q"
    using inv by (simp_all add: net_inv_def net_gone_def net_src_def sel)
  ultimately show ?thesis
    using inv by (auto simp: net_inv_def net_good_def net_runs_def net_sub_def net_caps_def f sel)
qed

lemma item_of_message [simp]: "item_of (Message (map_ok Some x) w) = Some x"
  by (cases x) simp_all

lemma inv_client:
  assumes inv: "net_inv env p" and q: "add_client (ne_kind env) e p = Some q" and good: "good_client e"
    and item: "\<And>x. item_of e = Some x \<Longrightarrow> waiting (answers (ne_fmt env) p) (printed p) = Some x"
    and close: "no_more e \<Longrightarrow> final (forwarded (ne_fmt env) p) = Some FwdDone
        \<and> waiting (answers (ne_fmt env) p) (printed p) = None"
  shows "net_inv env q"
proof -
  from q obtain st out st' out' where q': "q = p\<lparr>lp_client := lp_client p @ [e]\<rparr>"
    and p: "copied (ne_kind env) p = Some (st, out)" and step: "logs_step (ne_kind env) st e = Some (st', out')"
    and c: "copied (ne_kind env) q = Some (st', out @ out')"
    by (rule add_clientE)
  from inv have fifo: "fifo (answers (ne_fmt env) p) (printed p)" by (simp add: net_inv_def net_links_def)
  with item have "fifo (answers (ne_fmt env) p) (printed q)"
    by (cases "item_of e") (auto simp: q' fifo_waiting)
  moreover from q' have sel: "reads q k = reads p k" "lp_inner q = lp_inner p" "lp_wait q = lp_wait p"
    "lp_bcast q = lp_bcast p" "lp_relay q = lp_relay p" "lp_snapshot q = lp_snapshot p"
    "lp_relayed q = lp_relayed p" "lp_fwd q = lp_fwd p" "subscribed q = subscribed p"
    "list_all good_client (lp_client q) = list_all good_client (lp_client p)"
    "tracker_gone q = tracker_gone p" "kills_taken q = kills_taken p" for k
    using good by simp_all
  ultimately have "net_links env q" using inv by (simp add: net_inv_def net_links_def sel)
  moreover have "net_ends env q"
  proof -
    from step have "st = Streaming" by (cases st) simp_all
    with p have "\<not> list_ex no_more (lp_client p)" by (auto intro: net_copied [OF inv])
    moreover have "item_of e = None" if "no_more e" using that by (auto simp: no_more_def)
    ultimately show ?thesis
      using inv close fifo_empty [OF fifo] by (auto simp: net_inv_def net_ends_def q')
  qed
  moreover have "net_gone q" "net_src env q"
    using inv by (simp_all add: net_inv_def net_gone_def net_src_def sel)
  ultimately show ?thesis
    using inv by (auto simp: net_inv_def net_good_def net_runs_def net_sub_def net_caps_def c sel)
qed

lemma net_script: "net_inv env p \<Longrightarrow> script_inv k (ne_script env k) (ne_fail env k) (reads p k)"
  by (simp add: net_inv_def net_runs_def)

text \<open>What a stream's task has sent: frames of the script, then perhaps the error.\<close>

lemma net_items:
  assumes "net_inv env p"
  shows "prefix (effects (consumed p k)) (sent_frames k (ne_script env k) @ fail_items k (ne_fail env k))"
  using net_script [OF assms, of k]
  by (cases rule: script_invE)
     (auto simp: sent_frames_def prefix_append intro: map_mono_prefix dest: append_prefixD)

lemma net_taken:
  assumes "net_inv env p"
  shows "prefix (taken p k) (sent_frames k (ne_script env k) @ fail_items k (ne_fail env k))"
proof -
  from assms have "prefix (taken p k) (effects (consumed p k))"
    by (simp add: net_inv_def net_links_def fifo_def)
  also note net_items [OF assms]
  finally show ?thesis .
qed

lemma net_step_inv:
  assumes inv: "net_inv env p" and ok: "script_ok env" and step: "net_step env p m = Some q"
  shows "net_inv env q"
proof (cases m)
  case (Consume k)
  with step inv ok show ?thesis by (auto intro: inv_consume)
next
  case (Merge k)
  with step obtain x where "waiting (effects (consumed p k)) (taken p k) = Some x"
    and q: "add_wait (StreamRecv k (Some x) True) p = Some q"
    by (auto split: option.splits if_splits)
  then show ?thesis by (intro inv_wait [OF inv q]) (auto split: if_splits)
next
  case (StreamEnd k)
  with step show ?thesis
    by (intro inv_wait [OF inv, of "StreamRecv k None False"]) (auto split: if_splits)
next
  case ChildExit
  with step show ?thesis by (intro inv_wait [OF inv]) auto
next
  case KillTake
  with step obtain req res where "add_wait (KillRecv (Some req) res (ne_now env)) p = Some q"
    and "kills_taken p < length (ne_kills env)"
    by (auto split: if_splits prod.splits)
  then show ?thesis by (intro inv_wait [OF inv, of "KillRecv (Some req) res (ne_now env)"]) auto
next
  case SendLast
  with step show ?thesis by (intro inv_wait [OF inv, of "LastSend True"]) (auto split: if_splits)
next
  case BcastTake
  with step show ?thesis by (auto split: option.splits intro: inv_bcast [OF inv])
next
  case BcastEnd
  with step show ?thesis by (auto split: if_splits intro: inv_bcast_end [OF inv])
next
  case Subscribe
  with step show ?thesis by (auto split: option.splits if_splits intro: inv_subscribe [OF inv])
next
  case RelayTake
  with step show ?thesis by (auto split: option.splits intro!: inv_relay [OF inv])
next
  case RelaySend
  with step show ?thesis by (intro inv_relay [OF inv, of "ClientSend True"]) (auto split: if_splits)
next
  case Forward
  with step show ?thesis by (auto split: option.splits if_splits intro: inv_fwd [OF inv])
next
  case Print
  with step obtain x where "waiting (answers (ne_fmt env) p) (printed p) = Some x"
    and q: "add_client (ne_kind env) (Message (map_ok Some x) Written) p = Some q"
    by (auto split: option.splits)
  then show ?thesis by (intro inv_client [OF inv q]) (auto simp: no_more_def map_ok_def split: sum.splits)
next
  case PrintEnd
  with step show ?thesis
    by (intro inv_client [OF inv, of "Message (Inr None) Written"]) (auto split: if_splits)
qed

lemma net_start_inv: "net_inv env (net_start inner)"
proof -
  have "reads (net_start inner) k = []" for k by (cases k) (simp_all add: net_start_def)
  then show ?thesis
    by (simp add: net_inv_def net_inv_defs script_inv_start net_start_def fifo_def subscribed_def kills_taken_def
        JobTracker_wait_def FrameBroadcaster_bcast_def FrameRelay_relay_def Store_forward_def client_logs_def
        consume_output_def)
qed

section \<open>Every schedule ends\<close>

text \<open>The number of events in the histories is the number of moves.\<close>

definition events :: "'dt log_path \<Rightarrow> nat" where
  "events p =
     length (reads p Stdout) + length (reads p Stderr) + length (lp_wait p) + length (lp_bcast p)
     + length (lp_relayed p) + length (lp_fwd p) + length (lp_client p)"

lemma events_step:
  assumes "net_step env p m = Some q"
  shows "events q = Suc (events p)"
proof (cases m)
  case (Consume k)
  with assms show ?thesis by (cases k) (auto simp: events_def add_read_def)
next
  case Subscribe
  with assms show ?thesis
    by (auto simp: events_def split: option.splits if_splits elim!: add_bcastE)
qed (use assms in \<open>auto simp: events_def split: option.splits if_splits
       elim!: add_waitE add_bcastE add_relayedE add_fwdE add_clientE\<close>)

lemma net_step_inner:
  assumes "net_step env p m = Some q"
  shows "lp_inner q = lp_inner p"
proof (cases m)
  case (Consume k)
  with assms show ?thesis by auto
next
  case Subscribe
  with assms show ?thesis by (auto split: option.splits if_splits elim!: add_bcastE)
qed (use assms in \<open>auto split: option.splits if_splits
       elim!: add_waitE add_bcastE add_relayedE add_fwdE add_clientE\<close>)

definition reached ::
  "'dt net_env \<Rightarrow> 'dt tracker_inner \<Rightarrow> net_move list \<Rightarrow> unit list \<Rightarrow> 'dt log_path \<Rightarrow> bool" where
  "reached env inner ms out p \<longleftrightarrow>
     lp_inner p = inner \<and> (script_ok env \<longrightarrow> net_inv env p \<and> events p = length ms)"

interpretation net: task "net_task env" "net_start inner" "reached env inner" for env inner
proof
  have "events (net_start inner) = 0" "lp_inner (net_start inner) = inner"
    by (simp_all add: events_def net_start_def)
  then show "reached env inner [] [] (net_start inner)" by (simp add: reached_def net_start_inv)
  show "reached env inner (ms @ [m]) (out @ out') q"
    if "reached env inner ms out p" "net_task env p m = Some (q, out')" for ms out p m q out'
    using that net_step_inv events_step net_step_inner by (fastforce simp: reached_def net_task_def)
qed

lemma net_run_inv:
  assumes "net_run env inner ms = Some p" and "script_ok env"
  shows "net_inv env p" and "events p = length ms" and "lp_inner p = inner"
  using assms net.run_inv [of env inner ms p]
  by (auto simp: net_run_def final_def reached_def)

text \<open>The frames that the tracker has received are the frames among the items it has taken.\<close>

definition oks :: "('e + 'a) list \<Rightarrow> nat" where
  "oks xs = length (filter (\<lambda>x. \<not> isl x) xs)"

lemma oks_simps [simp]:
  "oks [] = 0" "oks (x # xs) = (if isl x then oks xs else Suc (oks xs))" "oks (xs @ ys) = oks xs + oks ys"
  "oks (sent_frames k cs) = length cs" "oks (fail_items k fail) = 0"
  by (simp_all add: oks_def sent_frames_def fail_items_def filter_map comp_def split: option.splits)

lemma oks_prefix: "prefix xs ys \<Longrightarrow> oks xs \<le> oks ys"
  by (auto simp: prefix_def)

lemma received_oks:
  "length (pick received_frame es) = oks (pick (stream_item Stdout) es) + oks (pick (stream_item Stderr) es)"
proof (induction es)
  case Nil
  then show ?case by simp
next
  case (Cons e es)
  show ?case
  proof (cases e)
    case (StreamRecv k ev sent)
    with Cons show ?thesis by (cases k; cases ev; cases "the ev") auto
  qed (use Cons in auto)
qed

lemma net_lengths:
  assumes inv: "net_inv env p"
  shows "length (merged p) \<le> frames_of env" and "length (tracked p) \<le> Suc (frames_of env)"
    and "events p \<le> 8 * frames_of env + length (ne_kills env) + 18"
proof -
  have reads_k: "length (reads p k) \<le> 2 * length (ne_script env k) + 2" for k
    using net_script [OF inv, of k]
    by (cases rule: script_invE) (auto dest!: prefix_length_le)
  have "oks (taken p k) \<le> length (ne_script env k)" for k
    using oks_prefix [OF net_taken [OF inv]] by simp
  from this [of Stdout] this [of Stderr] show merged: "length (merged p) \<le> frames_of env"
    unfolding merged_def received_oks frames_of_def by simp
  have taken_k: "length (taken p k) \<le> Suc (length (ne_script env k))" for k
    using prefix_length_le [OF net_taken [OF inv, of k]]
    by (simp add: fail_items_def sent_frames_def split: option.splits)
  obtain err where "tracked p = map FrameEv (merged p) @ (if tracker_gone p then [final_event err] else [])"
    by (rule net_tracked [OF inv])
  then have "length (tracked p) \<le> Suc (length (merged p))" by simp
  with merged show tracked: "length (tracked p) \<le> Suc (frames_of env)" by simp
  obtain st where good: "wait_good_inv (lp_wait p) (effects (waited p)) st" "list_all good_wait (lp_wait p)"
    by (rule net_waited [OF inv])
  moreover from inv have "kills_taken p \<le> length (ne_kills env)" by (simp add: net_inv_def net_src_def)
  ultimately have wait: "length (lp_wait p) \<le> length (taken p Stdout) + length (taken p Stderr) + length (ne_kills env) + 4"
    by (auto simp: wait_good_inv_def ended_def kills_taken_def)
  from inv have logged: "length (logged p) \<le> length (tracked p)"
    and q: "length (queued p) \<le> length (offered p)"
    and f: "length (fetched p) \<le> length (relay_out p)" and pr: "length (printed p) \<le> length (answers (ne_fmt env) p)"
    by (auto simp: net_inv_def net_links_def fifo_def dest!: prefix_length_le)
  have offered: "length (offered p) \<le> length (logged p)"
    using net_given [OF inv] by (cases "subscribed p") (auto dest!: prefix_length_le)
  have bcast: "length (lp_bcast p) \<le> length (logged p) + 2"
    by (rule net_bcasted [OF inv]) simp
  obtain st2 where relay: "length (lp_relayed p) = length (queued p) + length (relay_out p)"
    by (rule net_relayed [OF inv])
  from net_relay_out [OF inv] have out: "length (relay_out p) \<le> length (tracked p)" by (rule prefix_length_le)
  have fwd: "length (lp_fwd p) = length (fetched p)" and "length (answers (ne_fmt env) p) \<le> length (fetched p)"
    by (cases rule: net_forwarded [OF inv]; simp add: items_def end_item_def split: frame_event.splits)+
  moreover have "length (lp_client p) \<le> Suc (length (printed p))"
    by (rule net_copied [OF inv]) simp
  ultimately have "length (lp_bcast p) \<le> frames_of env + 3" "length (lp_relayed p) \<le> 2 * frames_of env + 2"
    "length (lp_fwd p) \<le> frames_of env + 1" "length (lp_client p) \<le> frames_of env + 2"
    using tracked logged q f pr offered bcast relay out by linarith+
  moreover have "length (lp_wait p) \<le> frames_of env + length (ne_kills env) + 6"
    using wait taken_k [of Stdout] taken_k [of Stderr] by (simp add: frames_of_def)
  moreover have "length (reads p Stdout) + length (reads p Stderr) \<le> 2 * frames_of env + 4"
    using reads_k [of Stdout] reads_k [of Stderr] by (simp add: frames_of_def)
  ultimately show "events p \<le> 8 * frames_of env + length (ne_kills env) + 18"
    unfolding events_def by linarith
qed

end
