(* ===== verification/Delivery.thy ===== *)
theory Delivery
  imports NetInvariant
begin

text \<open>
  Liveness of the closed system of \<open>Pipeline\<close>: where no task can move, the job has been
  recorded, and the client has printed the whole output of the child or was told of a failure,
  unless the broadcaster once found the channel of the relay full; and for which outputs that
  can happen.
\<close>

section \<open>Where it ends\<close>

text \<open>Above the broadcaster: nothing can move only when the whole log is in its hands.\<close>

definition upstream :: "net_move list" where
  "upstream =
     map Consume [Stdout, Stderr] @ map Merge [Stdout, Stderr] @ map StreamEnd [Stdout, Stderr]
     @ [ChildExit, KillTake, SendLast, BcastTake, BcastEnd]"

lemma upstream_stuckD:
  assumes "list_all (\<lambda>m. net_step env p m = None) upstream"
  shows "net_step env p (Consume k) = None" and "net_step env p (Merge k) = None"
    and "net_step env p (StreamEnd k) = None" and "net_step env p ChildExit = None"
    and "net_step env p SendLast = None" and "net_step env p BcastTake = None"
  using assms by (cases k; simp add: upstream_def)+

lemma bcast_caught_up:
  assumes inv: "net_inv env p" and "net_step env p BcastTake = None"
  shows "logged p = tracked p"
proof (cases "list_ex source_end (lp_bcast p)")
  case True
  with inv show ?thesis by (simp add: net_inv_def net_gone_def)
next
  case False
  then obtain st where st: "bcasted p = Some (st, effects (bcasted p))" "frame_rx_ok st"
    by (rule_tac net_bcasted [OF inv]) simp
  have "waiting (tracked p) (logged p) = None"
  proof (rule waiting_NoneI)
    fix ev
    assume "waiting (tracked p) (logged p) = Some ev"
    moreover have "add_bcast (FrameRecv (Some ev) (relay_accepts p)) p \<noteq> None"
      by (rule add_bcastI [OF st(1)]) (simp add: bcast_step.simps st(2))
    ultimately show False using assms(2) by simp
  qed
  with inv show ?thesis by (auto simp: net_inv_def net_links_def dest: fifo_empty)
qed

lemma stream_off_when_stuck:
  assumes inv: "net_inv env p" and st: "waited p = Some (st, out)" and loop: "w_pc st = Looping"
    and room: "room frame_cap (tracked p) (logged p)"
    and stuck: "net_step env p (Consume k) = None" "net_step env p (Merge k) = None"
      "net_step env p (StreamEnd k) = None"
  shows "\<not> stream_ok k st"
proof
  assume ok: "stream_ok k st"
  have step: "wait_step st (StreamRecv k ev sent) \<noteq> None" for ev sent
    using loop ok by (simp add: wait_step.simps)
  have none: "waiting (effects (consumed p k)) (taken p k) = None"
  proof (rule waiting_NoneI)
    fix x
    assume "waiting (effects (consumed p k)) (taken p k) = Some x"
    with stuck(2) room show False using add_waitI [OF st step, of "Some x" True] by simp
  qed
  then have "room stream_cap (effects (consumed p k)) (taken p k)"
    by (rule waiting_room) (simp add: stream_cap_def)
  then have "send_next k p \<noteq> None" by (simp add: send_next_def)
  with net_script [OF inv, of k] stuck(1) have "final (consumed p k) = Some Consumed"
    by (cases rule: script_invE) (auto simp: consume_next_def)
  with none stuck(3) add_waitI [OF st step] show False by simp
qed

lemma tracker_complete:
  assumes inv: "net_inv env p" and stuck: "list_all (\<lambda>m. net_step env p m = None) upstream"
  shows "tracker_gone p" and "logged p = tracked p"
proof -
  note none = upstream_stuckD [OF stuck]
  show logged: "logged p = tracked p" by (rule bcast_caught_up [OF inv none(6)])
  then have room: "room frame_cap (tracked p) (logged p)" by (simp add: room_def frame_cap_def)
  obtain st where st: "waited p = Some (st, effects (waited p))" by (rule net_waited [OF inv])
  have "w_pc st \<noteq> Broken"
    using none(5) room add_waitI [OF st, of "LastSend True"] by (auto simp: wait_step.simps)
  moreover have "w_pc st \<noteq> Looping"
  proof
    assume loop: "w_pc st = Looping"
    with none(4) add_waitI [OF st, of "ChildWait (ne_exit env) (ne_now env)"] have "\<not> child_ok st"
      by (auto simp: wait_step.simps)
    moreover have "\<not> stream_ok k st" for k
      by (rule stream_off_when_stuck [OF inv st loop room none(1-3)])
    from this [of Stdout] this [of Stderr] have "\<not> stdout_ok st \<and> \<not> stderr_ok st" by simp
    ultimately show False using JobTracker_wait_invs(3) [OF st] loop by (simp add: select_inv_def)
  qed
  moreover from st have "final (waited p) = Some st" by (simp only: final_eq_Some)
  ultimately show "tracker_gone p" by (cases "w_pc st") (simp_all add: tracker_gone_def)
qed

text \<open>
  A log that ends with an end of file is complete, and nothing has failed; any other end tells
  of a failure.
\<close>

lemma final_event_simps [simp]:
  "terminal (final_event err)" "final_event None = EofEv" "final_event (Some e) = ErrorEv e"
  by (cases err; simp add: final_event_def)+

definition child_inv :: "'dt wait_event list \<Rightarrow> 'dt wait_out list \<Rightarrow> 'dt wait_state \<Rightarrow> bool" where
  "child_inv es out st \<longleftrightarrow>
     (\<not> child_ok st \<longrightarrow> (\<exists>res now. ChildWait res now \<in> set es))
     \<and> (loop_err st = None \<longrightarrow> (\<forall>err now. ChildWait (Inl err) now \<notin> set es))"

lemma child_inv_step:
  "child_inv es out st \<Longrightarrow> wait_step st e = Some (st', out') \<Longrightarrow> child_inv (es @ [e]) (out @ out') st'"
  by (erule wait_step_cases)
     (auto simp: child_inv_def finish_def split: option.splits if_splits)

interpretation waiter_child: task wait_step "wait_start inner" child_inv for inner
  by unfold_locales (simp add: child_inv_def wait_start_def, rule child_inv_step)

lemma no_err_taken:
  assumes "streams_inv es out st" and "loop_err st = None"
  shows "Inl err \<notin> set (pick (stream_item k) es)"
proof
  assume "Inl err \<in> set (pick (stream_item k) es)"
  then obtain e where "e \<in> set es" "stream_item k e = Some (Inl err)" unfolding set_pick by blast
  with assms show False
    by (cases "(k, e)" rule: stream_item.cases) (auto simp: streams_inv_def split: if_splits)
qed

lemma streams_read:
  assumes inv: "net_inv env p" and eof: "EofEv \<in> set (tracked p)"
  shows "chunks (reads p k) = ne_script env k" and "SendDone False \<notin> set (reads p k)"
    and "no_failures env" and "length (tracked p) = Suc (frames_of env)"
    and "taken p k = sent_frames k (ne_script env k)"
proof -
  obtain st where st: "waited p = Some (st, effects (waited p))"
    and good: "wait_good_inv (lp_wait p) (effects (waited p)) st" "list_all good_wait (lp_wait p)"
    by (rule net_waited [OF inv])
  note invs = JobTracker_wait_invs [OF st]
  from invs(1) eof have complete: "w_pc st = Complete" and ok: "loop_err st = None"
    by (auto simp: frames_inv_def final_event_def split: if_splits option.splits)
  with invs(3) have off: "\<not> stdout_ok st" "\<not> stderr_ok st" "\<not> child_ok st" by (auto simp: select_inv_def)
  have read: "chunks (reads p k) = ne_script env k \<and> SendDone False \<notin> set (reads p k)
      \<and> ne_fail env k = None \<and> taken p k = sent_frames k (ne_script env k)" for k
  proof -
    from off invs(4) obtain sent where "StreamRecv k None sent \<in> set (lp_wait p)"
      by (cases k) (auto simp: streams_inv_def)
    with inv have fin: "final (consumed p k) = Some Consumed" "taken p k = effects (consumed p k)"
      and sends: "SendDone False \<notin> set (reads p k)"
      by (auto simp: net_inv_def net_ends_def)
    from net_script [OF inv, of k] fin sends no_err_taken [OF invs(4) ok, of _ k] show ?thesis
      by (cases rule: script_invE; cases "ne_fail env k") auto
  qed
  then show "chunks (reads p k) = ne_script env k" and "SendDone False \<notin> set (reads p k)"
    and "taken p k = sent_frames k (ne_script env k)" by blast+
  from st have "child_inv (lp_wait p) (effects (waited p)) st"
    unfolding JobTracker_wait_def by (rule waiter_child.run_inv)
  with off ok obtain res now where "ChildWait res now \<in> set (lp_wait p)" and "\<not> isl res"
    by (auto simp: child_inv_def isl_def)
  with inv have "\<not> isl (ne_exit env)" by (auto simp: net_inv_def net_src_def)
  with read show "no_failures env" unfolding no_failures_def all_streams by blast
  from good complete have "length (tracked p) = Suc (length (merged p))"
    by (simp add: wait_good_inv_def merged_def)
  with read show "length (tracked p) = Suc (frames_of env)"
    by (simp add: merged_def received_oks frames_of_def)
qed

text \<open>Where nothing has failed, the log ends with an end of file.\<close>

lemma err_source_fails:
  assumes inv: "net_inv env p" and err: "err_source (lp_wait p) e"
  shows "\<not> no_failures env"
  using err unfolding err_source_def
proof (elim disjE exE)
  fix k
  assume "Inl e \<in> set (taken p k)"
  with set_mono_prefix [OF net_taken [OF inv, of k]] have "ne_fail env k \<noteq> None"
    by (cases "ne_fail env k") (auto simp: sent_frames_def)
  then show ?thesis unfolding no_failures_def all_streams by auto
next
  fix res now
  assume "ChildWait (Inl res) now \<in> set (lp_wait p)"
  with inv have "ne_exit env = Inl res" by (auto simp: net_inv_def net_src_def)
  then show ?thesis by (simp add: no_failures_def)
qed

lemma tracker_end:
  assumes inv: "net_inv env p" and gone: "tracker_gone p"
  obtains st where "waited p = Some (st, effects (waited p))" and "w_pc st = Complete"
    and "tracked p = map FrameEv (merged p) @ [final_event (loop_err st)]" and "loop_err st = None \<longleftrightarrow> no_failures env"
proof -
  obtain st where st: "waited p = Some (st, effects (waited p))"
    and good: "wait_good_inv (lp_wait p) (effects (waited p)) st" "list_all good_wait (lp_wait p)"
    by (rule net_waited [OF inv])
  then have "final (waited p) = Some st" by (simp only: final_eq_Some)
  with gone have complete: "w_pc st = Complete" by (simp add: tracker_gone_def)
  with good have log: "tracked p = map FrameEv (merged p) @ [final_event (loop_err st)]"
    and "\<And>e. loop_err st = Some e \<Longrightarrow> err_source (lp_wait p) e"
    by (auto simp: wait_good_inv_def merged_def)
  then have "loop_err st = None \<longleftrightarrow> no_failures env"
    using err_source_fails [OF inv] streams_read(3) [OF inv] by (cases "loop_err st") auto
  with st complete log show thesis by (rule that)
qed

lemma log_end:
  assumes "net_inv env p" and "tracker_gone p"
  obtains err where "tracked p = map FrameEv (merged p) @ [final_event err]" and "err = None \<longleftrightarrow> no_failures env"
  using assms by (rule tracker_end)

text \<open>Below it: nothing can move only when the client has stopped.\<close>

lemma relay_stuck:
  assumes inv: "net_inv env p" and room: "room client_cap (relay_out p) (fetched p)"
    and stuck: "net_step env p RelayTake = None" "net_step env p RelaySend = None"
  shows "relay_out p = lp_snapshot p @ offered p"
proof -
  obtain st where st: "relayed p = Some (st, relay_out p)" and loop: "r_pc st = RLoop" and "ready st"
    and out: "relay_out p @ held st = lp_snapshot p @ queued p" by (rule net_relayed [OF inv])
  have "waiting (offered p) (queued p) = None"
  proof (rule waiting_NoneI)
    fix ev
    assume "waiting (offered p) (queued p) = Some ev"
    with stuck(1) show False
      using add_relayedI [OF st, of "BcastRecv (Some ev)"] loop by (simp add: relay_step.simps)
  qed
  with inv have queued: "queued p = offered p"
    by (auto simp: net_inv_def net_links_def dest: fifo_empty)
  have "to_send st = None"
    using stuck(2) room add_relayedI [OF st, of "ClientSend True"] loop
    by (cases "to_send st") (auto simp: relay_step.simps)
  with \<open>ready st\<close> loop have "held st = []" by (simp add: held_def ready_def)
  with out queued show ?thesis by simp
qed

lemma client_idle:
  assumes fin: "final (copied (ne_kind env) p) = Some Streaming" and stuck: "net_step env p Print = None"
  shows "waiting (answers (ne_fmt env) p) (printed p) = None"
proof (rule waiting_NoneI)
  fix x
  assume x: "waiting (answers (ne_fmt env) p) (printed p) = Some x"
  from fin have c: "copied (ne_kind env) p = Some (Streaming, effects (copied (ne_kind env) p))"
    by (simp only: final_eq_Some)
  have "logs_step (ne_kind env) Streaming (Message (map_ok Some x) Written) \<noteq> None"
    by (cases x) simp_all
  from add_clientI [OF c this] x stuck show False by simp
qed

lemma forwarder_idle:
  assumes fwd: "forwarded (ne_fmt env) p = Some (FwdLoop, out)" and stuck: "net_step env p Forward = None"
    and room: "room response_cap (answers (ne_fmt env) p) (printed p)"
  shows "waiting (relay_out p) (fetched p) = None"
proof (rule waiting_NoneI)
  fix ev
  assume ev: "waiting (relay_out p) (fetched p) = Some ev"
  have "forward_step (ne_fmt env) FwdLoop (LogRecv (Some ev) True) \<noteq> None" by (cases ev) simp_all
  with add_fwdI [OF fwd] have "add_fwd (ne_fmt env) (LogRecv (Some ev) True) p \<noteq> None" by blast
  with ev room stuck show False by simp
qed

lemma client_served:
  assumes inv: "net_inv env p" and sub: "subscribed p" and log: "logged p = tracked p" "tracker_gone p"
    and kept: "\<not> refused 0 (effects (bcasted p))"
    and stuck: "net_step env p RelayTake = None" "net_step env p RelaySend = None" "net_step env p Forward = None"
      "net_step env p Print = None" "net_step env p PrintEnd = None"
  shows "final (copied (ne_kind env) p) \<noteq> Some Streaming"
proof
  assume fin: "final (copied (ne_kind env) p) = Some Streaming"
  note none = client_idle [OF fin stuck(4)]
  from inv show False
  proof (cases rule: net_forwarded)
    case (going fs)
    have "room response_cap (answers (ne_fmt env) p) (printed p)"
      using none by (rule waiting_room) (simp add: response_cap_def)
    note idle = forwarder_idle [OF going(1) stuck(3) this]
    then have "room client_cap (relay_out p) (fetched p)" by (rule waiting_room) (simp add: client_cap_def)
    moreover from idle inv have "fetched p = relay_out p"
      by (auto simp: net_inv_def net_links_def dest: fifo_empty)
    ultimately have "fetched p = tracked p"
      using relay_stuck [OF inv _ stuck(1,2)] net_given(1) [OF inv sub] net_given(4) [OF inv sub kept] log by simp
    moreover obtain err where "tracked p = map FrameEv (merged p) @ [final_event err]"
      by (rule log_end [OF inv log(2)])
    ultimately have "final_event err \<in> set (map FrameEv fs)" using going(2) by simp
    then show False using final_event_simps(1) [of err] by (metis ex_map_conv terminal_simps(1))
  next
    case (ended fs ev)
    from fin have c: "copied (ne_kind env) p = Some (Streaming, effects (copied (ne_kind env) p))"
      by (simp only: final_eq_Some)
    with ended stuck(5) none add_clientI [OF c, of "Message (Inr None) Written"] show False by simp
  qed
qed

text \<open>A client that has stopped was told the truth.\<close>

lemma end_event:
  assumes inv: "net_inv env p" and ev: "ev \<in> set (fetched p)" "terminal ev"
  obtains err where "ev = final_event err" and "err = None \<longleftrightarrow> no_failures env" and "ev \<in> set (tracked p)"
    and "ev \<in> set (relay_out p)" and "subscribed p" and "tracker_gone p"
proof -
  from inv ev(1) have out: "ev \<in> set (relay_out p)"
    by (auto simp: net_inv_def net_links_def fifo_def dest: set_mono_prefix)
  have sub: "subscribed p"
  proof (rule ccontr)
    assume "\<not> subscribed p"
    with inv out show False by (auto simp: net_inv_def net_sub_def FrameRelay_relay_def)
  qed
  from out set_mono_prefix [OF net_relay_out [OF inv]] have log: "ev \<in> set (tracked p)" by blast
  have gone: "tracker_gone p"
  proof (rule ccontr)
    assume "\<not> tracker_gone p"
    with net_tracked [OF inv] have "tracked p = map FrameEv (merged p)" by (metis append_Nil2)
    with log ev(2) show False by auto
  qed
  then obtain err where "tracked p = map FrameEv (merged p) @ [final_event err]" and "err = None \<longleftrightarrow> no_failures env"
    by (rule log_end [OF inv])
  moreover from this(1) log ev(2) have "ev = final_event err" by auto
  ultimately show thesis using out sub log gone by (intro that)
qed

lemma net_live:
  assumes inv: "net_inv env p" and eof: "EofEv \<in> set (tracked p)"
  shows "live (ne_fmt env) p"
proof -
  from inv have "list_all fwd_sent (lp_fwd p)"
    by (auto simp: net_inv_def net_good_def list_all_iff elim!: good_fwd.elims)
  with inv streams_read(2) [OF inv eof] show ?thesis
    unfolding live_def all_streams by (auto simp: net_inv_def net_ends_def)
qed

lemma server_error_taken: "Inl st \<in> set (pick item_of es) \<Longrightarrow> list_ex server_error es"
proof (induction es)
  case Nil
  then show ?case by simp
next
  case (Cons e es)
  then show ?case by (cases e rule: item_of.cases) (auto simp: server_error_def)
qed

definition outcome :: "'dt net_env \<Rightarrow> 'dt log_path \<Rightarrow> bool" where
  "outcome env p \<longleftrightarrow> (if no_failures env then delivered env p else told_error env p)"

lemma done_delivered:
  assumes inv: "net_inv env p" and kind: "kind_getter (ne_kind env)"
    and fin: "final (copied (ne_kind env) p) = Some (Stopped (Done ()))"
  shows "no_failures env \<and> delivered env p"
proof -
  from fin have c: "copied (ne_kind env) p = Some (Stopped (Done ()), effects (copied (ne_kind env) p))"
    by (simp only: final_eq_Some)
  from fin have more: "list_ex no_more (lp_client p)" and ok: "\<not> list_ex server_error (lp_client p)"
    by (auto intro: net_copied [OF inv])
  with inv have "final (forwarded (ne_fmt env) p) = Some FwdDone" and all: "printed p = answers (ne_fmt env) p"
    by (auto simp: net_inv_def net_ends_def)
  with inv obtain fs ev where ev: "terminal ev" "fetched p = map FrameEv fs @ [ev]"
    and "answers (ne_fmt env) p = items fs @ end_item (ne_fmt env) ev"
    by (cases rule: net_forwarded) auto
  with all have "Inl st \<notin> set (end_item (ne_fmt env) ev)" for st
    using ok server_error_taken [of st "lp_client p"] by auto
  with ev(1) have eof: "ev = EofEv" by (cases ev) (auto simp: end_item_def)
  from ev eof have "EofEv \<in> set (fetched p)" by simp
  from end_event [OF inv this] have log: "EofEv \<in> set (tracked p)" and sub: "subscribed p" by auto
  have "written k (effects (copied (ne_kind env) p)) = concat (ne_script env k)" for k
    using complete_output [OF net_all_run [OF inv] net_wired [OF inv sub] kind net_live [OF inv log] c]
      streams_read(1) [OF inv log] by (simp add: child_bytes_def)
  with fin streams_read(3) [OF inv log] show ?thesis unfolding delivered_def all_streams by blast
qed

lemma exit_told:
  assumes inv: "net_inv env p" and kind: "kind_getter (ne_kind env)"
    and fin: "final (copied (ne_kind env) p) = Some (Stopped (Exit1 st))"
  shows "\<not> no_failures env \<and> told_error env p"
proof -
  from fin have c: "copied (ne_kind env) p = Some (Stopped (Exit1 st), effects (copied (ne_kind env) p))"
    by (simp only: final_eq_Some)
  from fin have "Inl st \<in> set (printed p)" by (auto intro: net_copied [OF inv])
  with inv have "Inl st \<in> set (answers (ne_fmt env) p)"
    by (auto simp: net_inv_def net_links_def fifo_def dest: set_mono_prefix)
  with inv obtain fs ev where ev: "terminal ev" "fetched p = map FrameEv fs @ [ev]"
    and st: "Inl st \<in> set (end_item (ne_fmt env) ev)"
    by (cases rule: net_forwarded) (auto simp: items_def)
  then obtain err where "ev = ErrorEv err" and code: "st_code st = Internal"
    by (cases ev) (auto simp: end_item_def mk_status_def)
  from ev(2) have "ev \<in> set (fetched p)" by simp
  from end_event [OF inv this ev(1)] \<open>ev = ErrorEv err\<close> obtain err'
    where "ErrorEv err = final_event err'" "err' = None \<longleftrightarrow> no_failures env" and sub: "subscribed p" by metis
  then have fail: "\<not> no_failures env" by (cases err') auto
  have "prefix (written k (effects (copied (ne_kind env) p))) (concat (ne_script env k))" for k
  proof -
    note output_prefix [OF net_all_run [OF inv] net_wired [OF inv sub] kind c, of k]
    also have "prefix (child_bytes p k) (concat (ne_script env k))"
      unfolding child_bytes_def using net_script [OF inv, of k] by (simp add: script_inv_def prefix_concat)
    finally show ?thesis .
  qed
  with fail fin code show ?thesis unfolding told_error_def all_streams by simp
qed

lemma stopped_outcome:
  assumes inv: "net_inv env p" and kind: "kind_getter (ne_kind env)"
    and fin: "final (copied (ne_kind env) p) \<noteq> Some Streaming"
  shows "outcome env p"
proof -
  obtain pc where c: "final (copied (ne_kind env) p) = Some pc" and "\<And>msg. pc \<noteq> Stopped (Bail msg)"
    by (rule net_copied [OF inv]) (auto split: client_pc.splits cli.splits)
  with fin consider "pc = Stopped (Done ())" | st where "pc = Stopped (Exit1 st)"
    by (metis client_pc.exhaust cli.exhaust old.unit.exhaust)
  then show ?thesis
    using done_delivered [OF inv kind] exit_told [OF inv kind] c by cases (auto simp: outcome_def)
qed

text \<open>A client that has stopped has had the whole log, and its relay has nothing left.\<close>

lemma stopped_fetched:
  assumes inv: "net_inv env p" and fin: "final (copied (ne_kind env) p) \<noteq> Some Streaming"
  obtains fs ev where "terminal ev" and "fetched p = map FrameEv fs @ [ev]"
proof -
  obtain pc where "final (copied (ne_kind env) p) = Some pc"
    and "case pc of
           Streaming \<Rightarrow> \<not> list_ex no_more (lp_client p)
         | Stopped (Exit1 st) \<Rightarrow> Inl st \<in> set (printed p)
         | Stopped (Done u) \<Rightarrow> list_ex no_more (lp_client p) \<and> \<not> list_ex server_error (lp_client p)
         | Stopped (Bail msg) \<Rightarrow> False" by (rule net_copied [OF inv])
  with fin have "list_ex no_more (lp_client p) \<or> (\<exists>st. Inl st \<in> set (printed p))"
    by (auto split: client_pc.splits cli.splits)
  then have "final (forwarded (ne_fmt env) p) = Some FwdDone \<or> (\<exists>st. Inl st \<in> set (answers (ne_fmt env) p))"
  proof (elim disjE exE)
    fix st
    assume "Inl st \<in> set (printed p)"
    moreover from inv have "set (printed p) \<subseteq> set (answers (ne_fmt env) p)"
      by (auto simp: net_inv_def net_links_def fifo_def dest: set_mono_prefix)
    ultimately show ?thesis by blast
  qed (use inv in \<open>simp add: net_inv_def net_ends_def\<close>)
  with inv that show thesis by (cases rule: net_forwarded) (auto simp: items_def)
qed

lemma stopped_relay:
  assumes inv: "net_inv env p" and fin: "final (copied (ne_kind env) p) \<noteq> Some Streaming"
  obtains st where "relayed p = Some (st, relay_out p)" and "r_pc st = RLoop" and "held st = []"
    and "queued p = offered p" and "tracker_gone p" and "logged p = tracked p"
    and "fetched p = tracked p" and "relay_out p = tracked p"
proof -
  obtain fs ev where ev: "terminal ev" and fetched: "fetched p = map FrameEv fs @ [ev]"
    by (rule stopped_fetched [OF inv fin])
  obtain err where "ev = final_event err" and sub: "subscribed p" and gone: "tracker_gone p"
    using end_event [OF inv _ ev] fetched by auto
  obtain tail where tail: "tracked p = map FrameEv (merged p) @ tail" "length tail \<le> 1"
    by (rule net_tracked [OF inv]) (simp split: if_splits)
  obtain st where st: "relayed p = Some (st, relay_out p)" "r_pc st = RLoop"
    and out: "relay_out p @ held st = lp_snapshot p @ queued p" by (rule net_relayed [OF inv])
  have "prefix (fetched p) (relay_out p)" and chan: "prefix (queued p) (offered p)"
    and logged: "prefix (logged p) (tracked p)"
    using inv by (simp_all add: net_inv_def net_links_def fifo_def)
  have "length (merged p) \<le> length fs"
  proof (rule ccontr)
    assume "\<not> length (merged p) \<le> length fs"
    moreover have "prefix (map FrameEv fs @ [ev]) (tracked p)"
      using \<open>prefix (fetched p) (relay_out p)\<close> net_relay_out [OF inv] fetched by (auto intro: prefix_order.trans)
    then have "tracked p ! length fs = ev" by (auto simp: prefix_def nth_append)
    ultimately have "ev = FrameEv (merged p ! length fs)" by (simp add: tail(1) nth_append)
    with ev show False by simp
  qed
  then have "length (tracked p) \<le> length (fetched p)" using tail by (simp add: fetched)
  moreover have "length (lp_snapshot p) + length (offered p) \<le> length (logged p)"
    using net_given(1) [OF inv sub] net_given(3) [OF inv] by (metis length_append prefix_length_le)
  moreover have "length (relay_out p) + length (held st) = length (lp_snapshot p) + length (queued p)"
    using out by (metis length_append)
  ultimately have "length (held st) = 0" and "length (offered p) \<le> length (queued p)"
    and "length (tracked p) \<le> length (logged p)"
    using prefix_length_le [OF chan] prefix_length_le [OF logged]
      prefix_length_le [OF \<open>prefix (fetched p) (relay_out p)\<close>] by linarith+
  moreover from this(2,3) chan logged have "queued p = offered p" "logged p = tracked p"
    by (auto simp: prefix_def)
  moreover have "fetched p = tracked p" and "relay_out p = tracked p"
    using \<open>length (tracked p) \<le> length (fetched p)\<close> \<open>prefix (fetched p) (relay_out p)\<close> net_relay_out [OF inv]
    by (auto simp: prefix_def)
  ultimately show thesis using st gone by (intro that) auto
qed

section \<open>Schedules that go on until nothing can move\<close>

lemma net_run_append:
  "net_run env inner ms = Some p \<Longrightarrow>
   net_run env inner (ms @ ms') = final (run (net_task env) p ms')"
  by (auto simp: net_run_def final_def run_append split: option.splits)

lemma run_Cons_iff:
  "final (run (net_task env) p (m # ms)) = Some q \<longleftrightarrow>
   (\<exists>p1. net_step env p m = Some p1 \<and> final (run (net_task env) p1 ms) = Some q)"
  by (cases "net_step env p m") (auto simp: net_task_def [of env p m] final_def split: option.splits)

lemma exhaust_moves:
  assumes "net_inv env p" and ok: "script_ok env"
  shows "\<exists>ms q. set ms \<subseteq> set M \<and> final (run (net_task env) p ms) = Some q
    \<and> list_all (\<lambda>m. net_step env q m = None) M"
  using assms(1)
proof (induction "8 * frames_of env + length (ne_kills env) + 18 - events p" arbitrary: p rule: less_induct)
  case less
  show ?case
  proof (cases "list_all (\<lambda>m. net_step env p m = None) M")
    case True
    then show ?thesis by (intro exI [of _ "[]"]) simp
  next
    case False
    then obtain m q where m: "m \<in> set M" and q: "net_step env p m = Some q"
      by (auto simp: list_all_iff)
    have inv: "net_inv env q" by (rule net_step_inv [OF less.prems ok q])
    have "8 * frames_of env + length (ne_kills env) + 18 - events q < 8 * frames_of env + length (ne_kills env) + 18 - events p"
      using events_step [OF q] net_lengths(3) [OF inv] by linarith
    from less.hyps [OF this inv] obtain ms q' where "set ms \<subseteq> set M"
      and "final (run (net_task env) q ms) = Some q'" and "list_all (\<lambda>m. net_step env q' m = None) M"
      by blast
    with m q show ?thesis
      by (intro exI [of _ "m # ms"] exI [of _ q']) (auto simp: run_Cons_iff simp del: run.simps)
  qed
qed

lemma stuck_asked:
  assumes inv: "net_inv env p" and stuck: "net_step env p Subscribe = None"
  shows "subscribed p"
proof (rule ccontr)
  assume no: "\<not> subscribed p"
  obtain st where st: "bcasted p = Some (st, effects (bcasted p))" and ok: "req_rx_ok st"
    by (rule net_bcasted [OF inv])
  let ?p = "p\<lparr>lp_relay := next_relay st, lp_snapshot := b_frames st\<rparr>"
  from st have "bcasted ?p = Some (st, effects (bcasted p))" by simp
  then have "add_bcast (ReqRecv (Some True)) ?p \<noteq> None"
    by (rule add_bcastI) (simp add: bcast_step.simps FrameRelay_start_def ok)
  moreover have "net_step env p Subscribe = add_bcast (ReqRecv (Some True)) ?p"
    using no by (simp del: One_nat_def) (subst st, simp)
  ultimately show False using stuck by simp
qed

lemma stuck_outcome:
  assumes inv: "net_inv env p" and kind: "kind_getter (ne_kind env)" and stuck: "stuck env p"
    and kept: "\<not> refused 0 (effects (bcasted p))"
  shows "outcome env p"
proof -
  from stuck have up: "list_all (\<lambda>m. net_step env p m = None) upstream"
    and down: "net_step env p Subscribe = None" "net_step env p RelayTake = None" "net_step env p RelaySend = None"
      "net_step env p Forward = None" "net_step env p Print = None" "net_step env p PrintEnd = None"
    by (simp_all add: stuck_def all_moves_def upstream_def del: net_step.simps)
  show ?thesis
    by (rule stopped_outcome [OF inv kind client_served
          [OF inv stuck_asked [OF inv down(1)] tracker_complete(2,1) [OF inv up] kept down(2-6)]])
qed

section \<open>A relay that is not scheduled\<close>

text \<open>The end of the log never reaches a relay that was given up, and its client waits.\<close>

lemma given_relay_out:
  assumes inv: "net_inv env p" and sub: "subscribed p"
  shows "prefix (relay_out p) (given 0 (effects (bcasted p)))"
proof -
  obtain st where "relay_out p @ held st = lp_snapshot p @ queued p" by (rule net_relayed [OF inv])
  then have "prefix (relay_out p) (lp_snapshot p @ queued p)" by (rule prefixI [OF sym])
  also from inv have "prefix \<dots> (lp_snapshot p @ offered p)"
    by (simp add: net_inv_def net_links_def fifo_def)
  also note net_given(1) [OF inv sub, symmetric]
  finally show ?thesis .
qed

lemma refused_given:
  assumes inv: "net_inv env p" and ref: "refused 0 (effects (bcasted p))"
  shows "prefix (given 0 (effects (bcasted p))) (map FrameEv (merged p))"
proof -
  obtain st where st: "bcasted p = Some (st, effects (bcasted p))"
    and snap: "snapshot_inv (lp_bcast p) (effects (bcasted p)) st"
    by (rule net_bcasted [OF inv])
  from st have "short_inv (lp_bcast p) (effects (bcasted p)) st"
    unfolding FrameBroadcaster_bcast_def by (rule bcast_short.run_inv)
  with ref have "length (given 0 (effects (bcasted p))) < length (b_frames st)"
    by (simp add: short_inv_def)
  moreover from snap have "b_frames st = logged p"
    by (simp add: snapshot_inv_def bcast_inv_def stream_inv_def)
  moreover from inv have logged: "prefix (logged p) (tracked p)" by (simp add: net_inv_def net_links_def fifo_def)
  ultimately have short: "length (given 0 (effects (bcasted p))) < length (tracked p)"
    by (auto dest!: prefix_length_le)
  have "prefix (given 0 (effects (bcasted p))) (tracked p)"
    using net_given(3) [OF inv] logged by (rule prefix_order.trans)
  with short show ?thesis
    by - (rule net_tracked [OF inv], auto simp: prefix_snoc split: if_splits)
qed

lemma refused_no_end:
  assumes inv: "net_inv env p" and ref: "refused 0 (effects (bcasted p))" and fetched: "ev \<in> set (fetched p)"
  shows "\<not> terminal ev"
proof
  assume "terminal ev"
  with fetched inv have out: "ev \<in> set (relay_out p)" and sub: "subscribed p" by (auto elim: end_event)
  then have "ev \<in> set (map FrameEv (merged p))"
    using given_relay_out [OF inv sub] refused_given [OF inv ref] by (blast dest: set_mono_prefix)
  with \<open>terminal ev\<close> show False by auto
qed

lemma refused_waits:
  assumes inv: "net_inv env p" and ref: "refused 0 (effects (bcasted p))"
  shows "final (copied (ne_kind env) p) = Some Streaming"
proof -
  from inv refused_no_end [OF inv ref] obtain fs where f: "forwarded (ne_fmt env) p = Some (FwdLoop, items fs)"
    by (cases rule: net_forwarded) auto
  have "\<not> list_ex no_more (lp_client p)" using inv f by (auto simp: net_inv_def net_ends_def)
  moreover have "Inl st \<notin> set (printed p)" for st
    using inv f by (auto simp: net_inv_def net_links_def fifo_def items_def dest!: set_mono_prefix)
  ultimately show ?thesis
    by - (rule net_copied [OF inv], auto split: client_pc.splits cli.splits)
qed

lemma upstream_step:
  assumes "m \<in> set upstream" and "net_step env p m = Some q"
  shows "lp_relayed q = lp_relayed p \<and> lp_snapshot q = lp_snapshot p \<and> subscribed q = subscribed p"
proof (cases "m = BcastTake \<or> m = BcastEnd")
  case True
  with assms(2) show ?thesis by (auto split: option.splits if_splits elim!: add_bcastE)
next
  case False
  with assms show ?thesis
    by (auto simp: upstream_def split: option.splits if_splits elim!: add_waitE)
qed

lemma upstream_run:
  "set ms \<subseteq> set upstream \<Longrightarrow> final (run (net_task env) p ms) = Some q \<Longrightarrow>
   lp_relayed q = lp_relayed p \<and> lp_snapshot q = lp_snapshot p \<and> subscribed q = subscribed p"
proof (induction ms arbitrary: p)
  case Nil
  then show ?case by (simp add: final_def)
next
  case (Cons m ms)
  from Cons.prems(2) obtain p1 where p1: "net_step env p m = Some p1"
    and rest: "final (run (net_task env) p1 ms) = Some q"
    using run_Cons_iff by blast
  from Cons.prems(1) p1 have "lp_relayed p1 = lp_relayed p \<and> lp_snapshot p1 = lp_snapshot p \<and> subscribed p1 = subscribed p"
    by (intro upstream_step) auto
  with Cons.IH [OF _ rest] Cons.prems(1) show ?case by auto
qed

text \<open>
  When the client asks first and the relay is not scheduled before the log is complete, the
  broadcaster finds its channel full, if the log has more events than fit.
\<close>

lemma starved_relay:
  assumes ok: "script_ok env" and well: "no_failures env" and many: "relay_cap \<le> frames_of env"
  obtains ms p where "net_run env inner ms = Some p" and "refused 0 (effects (bcasted p))"
proof -
  obtain p0 where p0: "net_run env inner [Subscribe] = Some p0" and "subscribed p0" and "lp_relayed p0 = []"
    and "lp_snapshot p0 = []"
  proof -
    have "bcasted (net_start inner) = Some (bcast_start, [])"
      by (simp add: net_start_def FrameBroadcaster_bcast_def)
    then show thesis
      by (intro that [of "(net_start inner)\<lparr>lp_bcast := [ReqRecv (Some True)]\<rparr>"])
        (simp_all add: net_run_def final_def net_task_def subscribed_def add_bcast_def Let_def
          FrameBroadcaster_bcast_def bcast_step.simps bcast_start_def FrameRelay_start_def net_start_def)
  qed
  obtain ms p where ms: "set ms \<subseteq> set upstream" and p: "final (run (net_task env) p0 ms) = Some p"
    and stuck: "list_all (\<lambda>m. net_step env p m = None) upstream"
    using exhaust_moves [OF net_run_inv(1) [OF p0 ok] ok] by blast
  from net_run_append [OF p0] p have run: "net_run env inner ([Subscribe] @ ms) = Some p" by simp
  have inv: "net_inv env p" by (rule net_run_inv(1) [OF run ok])
  from upstream_run [OF ms p] \<open>subscribed p0\<close> \<open>lp_relayed p0 = []\<close> \<open>lp_snapshot p0 = []\<close>
  have sub: "subscribed p" and idle: "queued p = []" and snap: "lp_snapshot p = []" by simp_all
  have "refused 0 (effects (bcasted p))"
  proof (rule ccontr)
    assume "\<not> refused 0 (effects (bcasted p))"
    with net_given(1,4) [OF inv sub] snap have "offered p = logged p" by simp
    moreover from inv idle have "length (offered p) \<le> relay_cap"
      by (auto simp: net_inv_def net_caps_def)
    moreover have "length (logged p) = Suc (frames_of env)"
      using tracker_complete [OF inv stuck] log_end [OF inv] streams_read(4) [OF inv] well by force
    ultimately show False using many by simp
  qed
  with run show thesis by (rule that)
qed

lemma refused_step:
  assumes "net_step env p m = Some q" and "refused 0 (effects (bcasted p))"
  shows "refused 0 (effects (bcasted q))"
proof (cases m)
  case (Consume k)
  with assms show ?thesis by (cases k) auto
next
  case Subscribe
  with assms show ?thesis by (auto split: option.splits if_splits elim!: add_bcastE)
qed (use assms in \<open>auto split: option.splits if_splits
       elim!: add_waitE add_bcastE add_relayedE add_fwdE add_clientE\<close>)

lemma refused_run:
  "final (run (net_task env) p ms) = Some q \<Longrightarrow> refused 0 (effects (bcasted p)) \<Longrightarrow>
   refused 0 (effects (bcasted q))"
proof (induction ms arbitrary: p)
  case Nil
  then show ?case by (simp add: final_def)
next
  case (Cons m ms)
  from Cons.prems(1) obtain p1 where "net_step env p m = Some p1"
    and "final (run (net_task env) p1 ms) = Some q"
    using run_Cons_iff by blast
  with Cons.IH refused_step Cons.prems(2) show ?case by blast
qed

lemma refused_many:
  assumes inv: "net_inv env p" and "refused 0 (effects (bcasted p))"
  shows "1024 \<le> frames_of env"
proof -
  from assms have "relay_cap < length (logged p)" and "prefix (logged p) (tracked p)"
    by (simp_all add: net_inv_def net_caps_def net_links_def fifo_def)
  with net_lengths(2) [OF inv] show ?thesis by (auto simp: relay_cap_def dest!: prefix_length_le)
qed

section \<open>The record of the job\<close>

text \<open>
  Where nothing above the broadcaster can move, the tracker has returned, each request to kill
  the child that it took has been answered or dropped, and the record says what became of it.
\<close>

lemma job_recorded:
  assumes run: "net_run env (JobTracker_track (Job_started i u pid t) ktx btx) ms = Some p" and ok: "script_ok env"
    and up: "list_all (\<lambda>m. net_step env p m = None) upstream"
  shows "\<exists>st out. waited p = Some (st, out) \<and> w_pc st = Complete
    \<and> mset (pick received_req (lp_wait p)) = mset (pick answered_req out) + mset (pick dropped_req out)
    \<and> (if no_failures env
       then ti_res (w_inner st) = Some (Inr ())
         \<and> (\<exists>status. ne_exit env = Inr status
              \<and> state (ti_job (w_inner st)) = Exited (ExitStatus_from_std status))
         \<and> ended_at (ti_job (w_inner st)) = Some (ne_now env)
       else (\<exists>err. ti_res (w_inner st) = Some (Inl err))
         \<and> (isl (ne_exit env) \<longrightarrow> state (ti_job (w_inner st)) = Running pid))"
proof -
  note inv = net_run_inv(1) [OF run ok] and inner = net_run_inv(3) [OF run ok]
  have "tracker_gone p" by (rule tracker_complete(1) [OF inv up])
  then obtain st where st: "waited p = Some (st, effects (waited p))" and complete: "w_pc st = Complete"
    and err: "loop_err st = None \<longleftrightarrow> no_failures env" by (rule tracker_end [OF inv])
  from inv have src: "\<And>res now. ChildWait res now \<in> set (lp_wait p) \<Longrightarrow> res = ne_exit env \<and> now = ne_now env"
    by (auto simp: net_inv_def net_src_def)
  have "mset (pick received_req (lp_wait p))
      = mset (pick answered_req (effects (waited p))) + mset (pick dropped_req (effects (waited p)))"
    using JobTracker_wait_invs(2) [OF st] complete by (simp add: reqs_inv_def)
  moreover from st inner have life: "life_inv (Job_started i u pid t) (lp_wait p) (effects (waited p)) st"
    by (simp add: JobTracker_wait_life)
  then have "ti_res (w_inner st) = Some (case loop_err st of Some err \<Rightarrow> Inl err | None \<Rightarrow> Inr ())"
    using complete by (simp add: life_inv_def res_inv_def)
  moreover have "\<exists>status. ne_exit env = Inr status \<and> exited_with (ti_job (w_inner st)) status (ne_now env)"
    if "loop_err st = None"
  proof -
    from JobTracker_wait_invs(3) [OF st] complete that have "\<not> child_ok st" by (auto simp: select_inv_def)
    with life that src show ?thesis by (force simp: life_inv_def exit_inv_def)
  qed
  moreover have "state (ti_job (w_inner st)) = Running pid" if "isl (ne_exit env)"
    using life that src by (force simp: life_inv_def exit_inv_def unended_def Job_started_def split: if_splits)
  ultimately show ?thesis
    using st complete err by (intro exI [of _ st] exI [of _ "effects (waited p)"]) (auto simp: exited_with_def)
qed

section \<open>Properties\<close>

text \<open>
  C2: every log is delivered. Whatever the order in which the tasks between a child and a client
  are scheduled, they come to rest after at most 8 moves per frame of output, one per request to
  kill the child and 18 more; from every state some continuation does; and where nothing can
  move any more, the client has ended. When nothing has failed it has ended well and has printed
  every byte of both streams; otherwise, when reading a stream or waiting for the child failed,
  it was told so by an error, after a first part of each stream. The one exception is that the
  broadcaster has found the channel of the relay full, for which the output needs 1024 frames:
  then the client waits for ever.
\<close>

theorem every_schedule_delivers:
  assumes run: "net_run env inner ms = Some p" and ok: "script_ok env" and kind: "kind_getter (ne_kind env)"
  shows "length ms \<le> 8 * frames_of env + length (ne_kills env) + 18
    \<and> (stuck env p \<longrightarrow>
         (if refused 0 (effects (bcasted p))
          then 1024 \<le> frames_of env \<and> final (copied (ne_kind env) p) = Some Streaming
          else if no_failures env then delivered env p else told_error env p))
    \<and> (\<exists>ms' q. net_run env inner (ms @ ms') = Some q \<and> stuck env q)"
proof -
  note inv = net_run_inv(1) [OF run ok]
  have "length ms \<le> 8 * frames_of env + length (ne_kills env) + 18"
    using net_lengths(3) [OF inv] net_run_inv(2) [OF run ok] by simp
  moreover have "\<exists>ms' q. net_run env inner (ms @ ms') = Some q \<and> stuck env q"
    using exhaust_moves [OF inv ok, of all_moves] unfolding stuck_def net_run_append [OF run] by blast
  ultimately show ?thesis
    using refused_many [OF inv] refused_waits [OF inv] stuck_outcome [OF inv kind]
    by (simp add: outcome_def)
qed

definition sample_env :: "nat net_env" where
  "sample_env =
     \<lparr>ne_script = (\<lambda>k. case k of Stdout \<Rightarrow> [[104, 105]] | Stderr \<Rightarrow> []), ne_fail = (\<lambda>k. None),
      ne_exit = Inr (OsCode 0), ne_now = 6, ne_kills = [(sample_req, Inr ())],
      ne_kind = sample_kind, ne_fmt = (\<lambda>e. [])\<rparr>"

lemma sample_env_facts:
  "script_ok sample_env" "kind_getter (ne_kind sample_env)" "frames_of sample_env = 1" "no_failures sample_env"
  by (simp_all add: sample_env_def script_ok_def frames_of_def no_failures_def sample_kind_getter)

definition sample_net :: "nat log_path" where
  "sample_net = (net_start (JobTracker_track sample_started 0 0))
     \<lparr>lp_bcast := [ReqRecv (Some True)], lp_out_reads := [read_of [104, 105]]\<rparr>"

lemma sample_net_run:
  "net_run sample_env (JobTracker_track sample_started 0 0) [Consume Stdout, Subscribe] = Some sample_net"
  by (simp add: sample_net_def net_run_def final_def net_task_def net_start_def consume_next_def next_read_def
        sample_env_def consume_output_def add_read_def subscribed_def add_bcast_def Let_def
        FrameBroadcaster_bcast_def bcast_step.simps bcast_start_def FrameRelay_start_def)

lemma sample_net_rests:
  "\<exists>ms q. net_run sample_env (JobTracker_track sample_started 0 0) ([Consume Stdout, Subscribe] @ ms) = Some q
     \<and> stuck sample_env q"
  using exhaust_moves [OF net_run_inv(1) [OF sample_net_run sample_env_facts(1)] sample_env_facts(1), of all_moves]
  unfolding stuck_def net_run_append [OF sample_net_run] by blast

text \<open>The same child, but its standard error cannot be read.\<close>

definition failing_env :: "nat net_env" where
  "failing_env = sample_env\<lparr>ne_fail := (\<lambda>k. case k of Stdout \<Rightarrow> None | Stderr \<Rightarrow> Some (OsError 5))\<rparr>"

lemma failing_env_facts:
  "script_ok failing_env" "kind_getter (ne_kind failing_env)" "frames_of failing_env = 1" "\<not> no_failures failing_env"
  using sample_env_facts by (simp_all add: failing_env_def script_ok_def frames_of_def no_failures_def)

lemma every_schedule_delivers_witness:
  "(\<exists>ms q. net_run sample_env (JobTracker_track sample_started 0 0) ([Consume Stdout, Subscribe] @ ms) = Some q
      \<and> delivered sample_env q)
   \<and> (\<exists>ms q. net_run failing_env (JobTracker_track sample_started 0 0) ms = Some q \<and> told_error failing_env q)"
proof -
  note thm_at = every_schedule_delivers [OF _ sample_env_facts(1,2)]
    and thm_fail = every_schedule_delivers [OF _ failing_env_facts(1,2)]
  from thm_at [OF sample_net_run] obtain ms q
    where q: "net_run sample_env (JobTracker_track sample_started 0 0) ([Consume Stdout, Subscribe] @ ms) = Some q"
    and "stuck sample_env q" by blast
  with thm_at [OF q] sample_env_facts(3,4) have "delivered sample_env q" by (simp split: if_splits)
  moreover have "net_run failing_env (JobTracker_track sample_started 0 0) [] = Some (net_start (JobTracker_track sample_started 0 0))"
    by (simp add: net_run_def final_def)
  from thm_fail [OF this] obtain ms' q'
    where q': "net_run failing_env (JobTracker_track sample_started 0 0) ms' = Some q'"
    and "stuck failing_env q'" by auto
  with thm_fail [OF q'] failing_env_facts(3,4) have "told_error failing_env q'" by (simp split: if_splits)
  ultimately show ?thesis using q q' by blast
qed

lemma starved_for_ever:
  assumes ok: "script_ok env" and well: "no_failures env" and many: "1024 \<le> frames_of env"
  obtains ms p where "net_run env inner ms = Some p" and "stuck env p" and "net_inv env p"
    and "refused 0 (effects (bcasted p))"
proof -
  from many have "relay_cap \<le> frames_of env" by (simp add: relay_cap_def)
  then obtain ms p where p: "net_run env inner ms = Some p" and ref: "refused 0 (effects (bcasted p))"
    by (rule starved_relay [OF ok well])
  from exhaust_moves [OF net_run_inv(1) [OF p ok] ok, of all_moves] obtain ms' q
    where q: "final (run (net_task env) p ms') = Some q" and "stuck env q" by (auto simp: stuck_def)
  with net_run_append [OF p] have run: "net_run env inner (ms @ ms') = Some q" by simp
  from this \<open>stuck env q\<close> net_run_inv(1) [OF run ok] refused_run [OF q ref] show thesis by (rule that)
qed

text \<open>
  C17: the capacity decides. All schedules deliver the whole log exactly when nothing fails and
  the child's output makes fewer than 1024 frames: its events, with the end of the file, then fit
  into the channel between the broadcaster and the relay. With 1024 frames or more, although
  nothing fails and the client stays and takes all that it is sent, there is a schedule under
  which the broadcaster gives the relay up, the stream comes to rest, and the client, which has
  never been sent an end of the log, waits for ever.
\<close>

theorem delivery_up_to_the_capacity:
  assumes ok: "script_ok env" and kind: "kind_getter (ne_kind env)"
  shows "((\<forall>ms p. net_run env inner ms = Some p \<and> stuck env p \<longrightarrow> delivered env p)
      \<longleftrightarrow> no_failures env \<and> frames_of env < 1024)
    \<and> (no_failures env \<and> 1024 \<le> frames_of env \<longrightarrow>
        (\<exists>ms p. net_run env inner ms = Some p \<and> stuck env p \<and> refused 0 (effects (bcasted p))
           \<and> final (copied (ne_kind env) p) = Some Streaming \<and> (\<forall>ev\<in>set (fetched p). \<not> terminal ev)))"
proof -
  have many: "\<exists>ms p. net_run env inner ms = Some p \<and> stuck env p \<and> refused 0 (effects (bcasted p))
      \<and> final (copied (ne_kind env) p) = Some Streaming \<and> (\<forall>ev\<in>set (fetched p). \<not> terminal ev)"
    if "no_failures env \<and> 1024 \<le> frames_of env"
  proof -
    from that obtain ms p where "net_run env inner ms = Some p" "stuck env p" "net_inv env p"
      and "refused 0 (effects (bcasted p))" using starved_for_ever [OF ok] by blast
    with refused_waits refused_no_end show ?thesis by metis
  qed
  have "no_failures env \<and> frames_of env < 1024"
    if all: "\<forall>ms p. net_run env inner ms = Some p \<and> stuck env p \<longrightarrow> delivered env p"
  proof -
    have start: "net_run env inner [] = Some (net_start inner)" by (simp add: net_run_def final_def)
    from exhaust_moves [OF net_run_inv(1) [OF start ok] ok, of all_moves] obtain ms q
      where "final (run (net_task env) (net_start inner) ms) = Some q" and "stuck env q"
      by (auto simp: stuck_def)
    with net_run_append [OF start] have q: "net_run env inner ms = Some q" by simp
    with all \<open>stuck env q\<close> have "delivered env q" by blast
    with done_delivered [OF net_run_inv(1) [OF q ok] kind] have "no_failures env" by (auto simp: delivered_def)
    moreover from this all many have "frames_of env < 1024" by (fastforce simp: delivered_def)
    ultimately show ?thesis ..
  qed
  moreover have "delivered env p"
    if few: "no_failures env \<and> frames_of env < 1024" and p: "net_run env inner ms = Some p \<and> stuck env p" for ms p
  proof -
    from p have inv: "net_inv env p" using net_run_inv(1) ok by blast
    have "\<not> refused 0 (effects (bcasted p))" using refused_many [OF inv] few by fastforce
    with stuck_outcome [OF inv kind] p few show "delivered env p" by (simp add: outcome_def)
  qed
  ultimately show ?thesis using many by blast
qed

definition big_env :: "nat net_env" where
  "big_env = sample_env\<lparr>ne_script := (\<lambda>k. case k of Stdout \<Rightarrow> replicate 1024 [10] | Stderr \<Rightarrow> [])\<rparr>"

lemma big_env_facts:
  "script_ok big_env" "kind_getter (ne_kind big_env)" "frames_of big_env = 1024" "no_failures big_env"
  using sample_env_facts(2,4) by (simp_all add: big_env_def script_ok_def frames_of_def list_all_iff no_failures_def)

lemma delivery_up_to_the_capacity_witness:
  "(\<exists>ms p. net_run big_env (JobTracker_track sample_started 0 0) ms = Some p \<and> stuck big_env p
      \<and> refused 0 (effects (bcasted p)) \<and> final (copied (ne_kind big_env) p) = Some Streaming)
   \<and> (\<nexists>ms p. net_run sample_env (JobTracker_track sample_started 0 0) ms = Some p \<and> stuck sample_env p
      \<and> \<not> delivered sample_env p)"
proof
  show "\<exists>ms p. net_run big_env (JobTracker_track sample_started 0 0) ms = Some p \<and> stuck big_env p
      \<and> refused 0 (effects (bcasted p)) \<and> final (copied (ne_kind big_env) p) = Some Streaming"
    using delivery_up_to_the_capacity [OF big_env_facts(1,2)] big_env_facts(3,4) by fastforce
  show "\<nexists>ms p. net_run sample_env (JobTracker_track sample_started 0 0) ms = Some p \<and> stuck sample_env p
      \<and> \<not> delivered sample_env p"
    using delivery_up_to_the_capacity [OF sample_env_facts(1,2)] sample_env_facts(3,4) by auto
qed

text \<open>
  C18: a served client leaves its relay behind. Take a client that stays until its stream ends or
  the server tells it of an error. When it has stopped, its relay has sent it the whole log, with
  the event that ends it, and the tracker has returned; but the relay task is still in its loop
  and never leaves it: whatever happens later, whether the client is gone or not, no event can
  reach the task, since it has nothing to send, nothing more comes from the broadcaster, and its
  channel stays open because the task itself owns a sender.
\<close>

theorem served_relay_never_returns:
  assumes run: "net_run env inner ms = Some p" and ok: "script_ok env"
    and served: "final (copied (ne_kind env) p) \<noteq> Some Streaming"
  shows "tracker_gone p \<and> logged p = tracked p
    \<and> (\<exists>err. tracked p = map FrameEv (merged p) @ [final_event err])
    \<and> relay_out p = tracked p \<and> fetched p = tracked p
    \<and> (\<exists>st. relayed p = Some (st, relay_out p) \<and> r_pc st = RLoop
        \<and> (\<forall>es. run relay_step st es \<noteq> None \<and> closed_only_unheld relay_step relay_closes relay_holds st es
             \<and> fifo (offered p) (queued p @ pick bcast_frame es) \<longrightarrow> es = []))"
proof -
  note inv = net_run_inv(1) [OF run ok]
  obtain st where st: "relayed p = Some (st, relay_out p)" "r_pc st = RLoop" "held st = []"
    and empty: "queued p = offered p" and rest: "tracker_gone p" "logged p = tracked p" "fetched p = tracked p"
      "relay_out p = tracked p"
    by (rule stopped_relay [OF inv served])
  obtain err where log: "tracked p = map FrameEv (merged p) @ [final_event err]"
    by (rule log_end [OF inv rest(1)])
  have "es = []" if es: "run relay_step st es \<noteq> None" "closed_only_unheld relay_step relay_closes relay_holds st es"
      "fifo (offered p) (queued p @ pick bcast_frame es)" for es
  proof (cases es)
    case (Cons e es')
    from es(1) Cons obtain st' out' where "relay_step st e = Some (st', out')"
      by (auto split: option.splits)
    then show ?thesis
    proof (cases rule: relay_step_cases)
      case (queued ev)
      with es(3) Cons empty show ?thesis by (auto simp: fifo_def dest!: prefix_length_le)
    next
      case closed
      with es(2) Cons st(2) show ?thesis by (simp add: relay_closes_def relay_holds_def)
    qed (use st in \<open>auto simp: held_def\<close>)
  qed
  with st(1,2) rest log show ?thesis by blast
qed

lemma served_relay_never_returns_witness:
  "\<exists>ms q st. net_run sample_env (JobTracker_track sample_started 0 0) ms = Some q
     \<and> delivered sample_env q \<and> relayed q = Some (st, tracked q) \<and> r_pc st = RLoop"
proof -
  obtain ms q where q: "net_run sample_env (JobTracker_track sample_started 0 0) ([Consume Stdout, Subscribe] @ ms) = Some q"
    and stuck: "stuck sample_env q" using sample_net_rests by blast
  note inv = net_run_inv(1) [OF q sample_env_facts(1)]
  have "\<not> refused 0 (effects (bcasted q))" using refused_many [OF inv] sample_env_facts(3) by auto
  with stuck_outcome [OF inv sample_env_facts(2) stuck] sample_env_facts(4) have "delivered sample_env q"
    by (simp add: outcome_def)
  moreover then have "final (copied (ne_kind sample_env) q) \<noteq> Some Streaming" by (simp add: delivered_def)
  from served_relay_never_returns [OF q sample_env_facts(1) this] obtain st
    where "relayed q = Some (st, tracked q)" "r_pc st = RLoop" by metis
  ultimately show ?thesis using q by blast
qed

end
