(* ===== verification/ManyClients.thy ===== *)
theory ManyClients
  imports Delivery
begin

text \<open>
  The job of the closed system among any number of clients. Clients act on a job only through
  the broadcaster: they ask for the log, at any time and as often as they like, and their relays
  take an event or refuse it. Here both are arbitrary; the tasks of the job move as in
  \<open>Pipeline\<close>. The job does exactly what it does with nobody watching.
\<close>

section \<open>A job among its clients\<close>

text \<open>
  \<open>Own m\<close>: a move of a task of the job; \<open>Hand acc\<close>: the broadcaster takes the next event, and
  \<open>acc\<close> tells which relays have room for it and are still there; \<open>Ask here\<close>: a client asks for
  the log, and is still there for the answer or not.
\<close>

datatype open_move = Own net_move | Hand "nat \<Rightarrow> bool" | Ask bool

definition job_moves :: "net_move list" where
  "job_moves =
     map Consume [Stdout, Stderr] @ map Merge [Stdout, Stderr] @ map StreamEnd [Stdout, Stderr]
     @ [ChildExit, KillTake, SendLast, BcastEnd]"

fun open_step :: "'dt net_env \<Rightarrow> 'dt log_path \<Rightarrow> open_move \<Rightarrow> 'dt log_path option" where
  "open_step env p (Own m) = (if m \<in> set job_moves then net_step env p m else None)"
| "open_step env p (Hand acc) =
     (case waiting (tracked p) (logged p) of
        None \<Rightarrow> None
      | Some ev \<Rightarrow> add_bcast (FrameRecv (Some ev) acc) p)"
| "open_step env p (Ask here) = add_bcast (ReqRecv (Some here)) p"

definition open_task :: "'dt net_env \<Rightarrow> 'dt log_path \<Rightarrow> open_move \<Rightarrow> ('dt log_path \<times> unit list) option" where
  "open_task env p m = map_option (\<lambda>q. (q, [])) (open_step env p m)"

definition open_run :: "'dt net_env \<Rightarrow> 'dt tracker_inner \<Rightarrow> open_move list \<Rightarrow> 'dt log_path option" where
  "open_run env inner ms = final (run (open_task env) (net_start inner) ms)"

text \<open>The tasks of the job have nothing left to do, whatever the clients may still ask.\<close>

definition job_rests :: "'dt net_env \<Rightarrow> 'dt log_path \<Rightarrow> bool" where
  "job_rests env p \<longleftrightarrow>
     list_all (\<lambda>m. open_step env p (Own m) = None) job_moves \<and> open_step env p (Hand (\<lambda>r. True)) = None"

text \<open>What a move does to the job itself.\<close>

primrec own_move :: "open_move \<Rightarrow> net_move option" where
  "own_move (Own m) = Some m"
| "own_move (Hand acc) = Some BcastTake"
| "own_move (Ask here) = None"

section \<open>The job does not see its clients\<close>

lemma rel_option_None: "rel_option R x y \<Longrightarrow> x = None \<longleftrightarrow> y = None"
  by (cases x; cases y) simp_all

text \<open>
  \<open>same_job_side\<close>: two states that differ in the clients only, that is in the requests and the
  relays of the broadcaster.
\<close>

definition same_job_side :: "'dt log_path \<Rightarrow> 'dt log_path \<Rightarrow> bool" where
  "same_job_side p p0 \<longleftrightarrow>
     lp_out_reads p = lp_out_reads p0 \<and> lp_err_reads p = lp_err_reads p0 \<and> lp_inner p = lp_inner p0
     \<and> lp_wait p = lp_wait p0 \<and> logged p = logged p0
     \<and> list_ex source_end (lp_bcast p) = list_ex source_end (lp_bcast p0)
     \<and> bcasted p \<noteq> None \<and> bcasted p0 \<noteq> None"

text \<open>The broadcaster serves its sources until they end, whatever its clients do.\<close>

definition rx_inv :: "bcast_event list \<Rightarrow> bcast_out list \<Rightarrow> bcast_state \<Rightarrow> bool" where
  "rx_inv es out st \<longleftrightarrow> (frame_rx_ok st \<longleftrightarrow> \<not> list_ex source_end es)
     \<and> (req_rx_ok st \<longleftrightarrow> ReqRecv None \<notin> set es)"

lemma rx_inv_step:
  "rx_inv es out st \<Longrightarrow> bcast_step st e = Some (st', out') \<Longrightarrow> rx_inv (es @ [e]) (out @ out') st'"
  by (erule bcast_step_cases) (auto simp: rx_inv_def)

interpretation bcast_rx: task bcast_step bcast_start rx_inv
  by unfold_locales (simp add: rx_inv_def bcast_start_def, rule rx_inv_step)

lemma add_bcast_source:
  assumes "bcasted p \<noteq> None"
  shows "add_bcast (FrameRecv ev acc) p =
     (if list_ex source_end (lp_bcast p) then None
      else Some (p\<lparr>lp_bcast := lp_bcast p @ [FrameRecv ev acc]\<rparr>))"
proof -
  from assms obtain st out where st: "bcasted p = Some (st, out)" by auto
  then have "rx_inv (lp_bcast p) out st"
    unfolding FrameBroadcaster_bcast_def by (rule bcast_rx.run_inv)
  then have "frame_rx_ok st \<longleftrightarrow> \<not> list_ex source_end (lp_bcast p)" by (simp add: rx_inv_def)
  moreover have "bcast_step st (FrameRecv ev acc) = None \<longleftrightarrow> \<not> frame_rx_ok st"
    by (cases ev) (simp_all add: bcast_step.simps)
  moreover have "bcasted (p\<lparr>lp_bcast := lp_bcast p @ [FrameRecv ev acc]\<rparr>) = None
      \<longleftrightarrow> bcast_step st (FrameRecv ev acc) = None"
    using st by (auto simp: FrameBroadcaster_bcast_def run_snoc split: option.splits)
  ultimately show ?thesis by (simp add: add_bcast_def Let_def)
qed

lemma same_reads: "same_job_side p p0 \<Longrightarrow> reads p k = reads p0 k"
  by (cases k) (simp_all add: same_job_side_def)

lemma same_job_view:
  assumes "same_job_side p p0"
  shows "waited p = waited p0" and "taken p k = taken p0 k" and "tracker_gone p = tracker_gone p0"
    and "kills_taken p = kills_taken p0" and "logged p = logged p0" and "merged p = merged p0"
  using assms by (simp_all add: same_job_side_def tracker_gone_def kills_taken_def merged_def)

lemma same_consume_next:
  assumes "same_job_side p p0"
  shows "consume_next env k p = consume_next env k p0"
proof -
  have send: "send_next k p = send_next k p0"
    unfolding send_next_def same_reads [OF assms] same_job_view [OF assms] ..
  show ?thesis unfolding consume_next_def same_reads [OF assms] send ..
qed

lemma add_read_same:
  "same_job_side p p0 \<Longrightarrow> same_job_side (add_read k e p) (add_read k e p0)"
  by (cases k) (simp_all add: same_job_side_def add_read_def)

lemma add_wait_same:
  assumes "same_job_side p p0"
  shows "rel_option same_job_side (add_wait e p) (add_wait e p0)"
  using assms by (auto simp: add_wait_def Let_def same_job_side_def)

lemma add_bcast_same:
  assumes "same_job_side p p0"
  shows "rel_option same_job_side (add_bcast (FrameRecv ev acc) p) (add_bcast (FrameRecv ev acc') p0)"
proof -
  from assms have run: "bcasted p \<noteq> None" "bcasted p0 \<noteq> None"
    and ended: "list_ex source_end (lp_bcast p) = list_ex source_end (lp_bcast p0)"
    by (simp_all add: same_job_side_def)
  have "rel_option same_job_side q q0"
    if "q = add_bcast (FrameRecv ev acc) p" and "q0 = add_bcast (FrameRecv ev acc') p0" for q q0
  proof (cases "list_ex source_end (lp_bcast p)")
    case True
    with that ended show ?thesis by (simp add: add_bcast_source [OF run(1)] add_bcast_source [OF run(2)])
  next
    case False
    with that ended obtain p1 p2 where q: "q = Some p1" "q0 = Some p2"
      and "p1 = p\<lparr>lp_bcast := lp_bcast p @ [FrameRecv ev acc]\<rparr>" and "p2 = p0\<lparr>lp_bcast := lp_bcast p0 @ [FrameRecv ev acc']\<rparr>"
      by (simp add: add_bcast_source [OF run(1)] add_bcast_source [OF run(2)])
    moreover from that q have "bcasted p1 \<noteq> None" and "bcasted p2 \<noteq> None"
      by (auto elim!: add_bcastE [OF sym])
    ultimately show ?thesis using assms by (simp add: same_job_side_def)
  qed
  then show ?thesis by blast
qed

text \<open>Each move of the job is a move of the job alone, with the same effect on it.\<close>

lemma own_step_same:
  assumes same: "same_job_side p p0" and m: "m \<in> set job_moves"
  shows "rel_option same_job_side (net_step env p m) (net_step env p0 m)"
proof (cases m)
  case (Consume k)
  then show ?thesis
    using add_read_same [OF same] by (simp add: same_consume_next [OF same] option.rel_map option.rel_refl)
next
  case BcastEnd
  then show ?thesis
    using add_bcast_same [OF same] by (simp add: same_job_view [OF same])
qed (use m add_wait_same [OF same] same_reads [OF same] in
     \<open>auto simp: job_moves_def same_job_view [OF same] split: option.splits prod.splits\<close>)

lemma hand_same:
  assumes same: "same_job_side p p0"
  shows "rel_option same_job_side (open_step env p (Hand acc)) (net_step env p0 BcastTake)"
  using add_bcast_same [OF same] by (simp add: same_job_view [OF same] split: option.splits)

lemma ask_same:
  assumes same: "same_job_side p p0" and q: "open_step env p (Ask here) = Some q"
  shows "same_job_side q p0"
  using same q by (auto simp: same_job_side_def elim!: add_bcastE)

lemma job_rests_same:
  assumes same: "same_job_side p p0"
  shows "job_rests env p \<longleftrightarrow> list_all (\<lambda>m. net_step env p0 m = None) upstream"
proof -
  have own: "open_step env p (Own m) = None \<longleftrightarrow> net_step env p0 m = None" if "m \<in> set job_moves" for m
    using rel_option_None [OF own_step_same [OF same that, of env]] that by (simp del: net_step.simps)
  note hand = rel_option_None [OF hand_same [OF same, of env "\<lambda>r. True"]]
  have "set upstream = insert BcastTake (set job_moves)" by (auto simp: upstream_def job_moves_def)
  then have "list_all (\<lambda>m. net_step env p0 m = None) upstream
      \<longleftrightarrow> net_step env p0 BcastTake = None \<and> (\<forall>m\<in>set job_moves. net_step env p0 m = None)"
    by (simp only: list_all_iff ball_simps)
  moreover from own have "(\<forall>m\<in>set job_moves. open_step env p (Own m) = None)
      \<longleftrightarrow> (\<forall>m\<in>set job_moves. net_step env p0 m = None)"
    by (rule ball_cong [OF refl])
  ultimately show ?thesis
    by (simp only: job_rests_def hand list_all_iff conj_commute)
qed

section \<open>Runs\<close>

definition open_inv ::
  "'dt net_env \<Rightarrow> 'dt tracker_inner \<Rightarrow> open_move list \<Rightarrow> unit list \<Rightarrow> 'dt log_path \<Rightarrow> bool" where
  "open_inv env inner ms out p \<longleftrightarrow>
     (\<exists>p0. net_run env inner (pick own_move ms) = Some p0 \<and> same_job_side p p0)
     \<and> ReqRecv None \<notin> set (lp_bcast p)"

lemma net_run_snoc:
  assumes "net_run env inner ms = Some p" and "net_step env p m = Some q"
  shows "net_run env inner (ms @ [m]) = Some q"
  unfolding net_run_append [OF assms(1)] run_Cons_iff using assms(2) by (simp add: final_def)

lemma open_step_same:
  assumes same: "same_job_side p p0" and run: "net_run env inner (pick own_move ms) = Some p0"
    and step: "open_step env p m = Some q"
  shows "\<exists>q0. net_run env inner (pick own_move (ms @ [m])) = Some q0 \<and> same_job_side q q0"
proof (cases m)
  case (Own m')
  with step have "m' \<in> set job_moves" and "net_step env p m' = Some q" by (auto split: if_splits)
  with own_step_same [OF same, of m' env] obtain q0 where "net_step env p0 m' = Some q0" "same_job_side q q0"
    by (auto simp: option_rel_Some1)
  with net_run_snoc [OF run] Own show ?thesis by auto
next
  case (Hand acc)
  with step hand_same [OF same, of env acc] obtain q0 where "net_step env p0 BcastTake = Some q0" "same_job_side q q0"
    by (auto simp: option_rel_Some1 simp del: net_step.simps open_step.simps)
  with net_run_snoc [OF run] Hand show ?thesis by (auto simp del: net_step.simps)
next
  case (Ask here)
  with ask_same [OF same] step run show ?thesis by auto
qed

lemma open_step_requests:
  assumes "open_step env p m = Some q" and "ReqRecv None \<notin> set (lp_bcast p)"
  shows "ReqRecv None \<notin> set (lp_bcast q)"
proof (cases m)
  case (Own m')
  with assms show ?thesis
    by (auto simp: job_moves_def split: if_splits option.splits prod.splits elim!: add_waitE add_bcastE)
qed (use assms in \<open>auto split: option.splits elim!: add_bcastE\<close>)

interpretation opened: task "open_task env" "net_start inner" "open_inv env inner" for env inner
proof
  have "same_job_side (net_start inner) (net_start inner)"
    by (simp add: same_job_side_def net_start_def FrameBroadcaster_bcast_def)
  then show "open_inv env inner [] [] (net_start inner)"
    by (simp add: open_inv_def net_run_def final_def) (simp add: net_start_def)
  show "open_inv env inner (ms @ [m]) (out @ out') q"
    if "open_inv env inner ms out p" "open_task env p m = Some (q, out')" for ms out p m q out'
  proof -
    from that(2) have step: "open_step env p m = Some q" by (auto simp: open_task_def)
    with that(1) open_step_same [OF _ _ step] open_step_requests [OF step] show ?thesis
      unfolding open_inv_def by blast
  qed
qed

lemma open_run_inv:
  assumes "open_run env inner ms = Some p"
  obtains p0 where "net_run env inner (pick own_move ms) = Some p0" and "same_job_side p p0"
    and "ReqRecv None \<notin> set (lp_bcast p)"
proof -
  from assms have "run (open_task env) (net_start inner) ms = Some (p, effects (run (open_task env) (net_start inner) ms))"
    by (simp only: open_run_def final_eq_Some)
  from opened.run_inv [OF this] that show thesis by (auto simp: open_inv_def)
qed

text \<open>The tasks of the job come to rest without their clients.\<close>

lemma open_run_snoc:
  assumes "open_run env inner ms = Some p" and "open_step env p m = Some q"
  shows "open_run env inner (ms @ [m]) = Some q"
  using assms by (auto simp: open_run_def final_def run_snoc open_task_def split: option.splits)

lemma own_length:
  assumes run: "open_run env inner ms = Some p" and ok: "script_ok env"
  shows "length (pick own_move ms) \<le> 8 * frames_of env + length (ne_kills env) + 18"
proof -
  obtain p0 where run0: "net_run env inner (pick own_move ms) = Some p0" by (rule open_run_inv [OF run])
  from net_lengths(3) [OF net_run_inv(1) [OF this ok]] net_run_inv(2) [OF this ok] show ?thesis by simp
qed

lemma job_comes_to_rest:
  assumes "open_run env inner ms = Some p" and ok: "script_ok env"
  shows "\<exists>ms' q. list_all (\<lambda>m. own_move m \<noteq> None) ms' \<and> open_run env inner (ms @ ms') = Some q \<and> job_rests env q"
  using assms(1)
proof (induction "8 * frames_of env + length (ne_kills env) + 18 - length (pick own_move ms)"
    arbitrary: ms p rule: less_induct)
  case less
  show ?case
  proof (cases "job_rests env p")
    case True
    with less.prems show ?thesis by (intro exI [of _ "[]"]) simp
  next
    case False
    then obtain m q where own: "own_move m \<noteq> None" and q: "open_step env p m = Some q"
      by (force simp: job_rests_def list_all_iff simp del: open_step.simps)
    note run = open_run_snoc [OF less.prems q]
    from own have "pick own_move (ms @ [m]) = pick own_move ms @ [the (own_move m)]" by auto
    with own_length [OF run ok] have "8 * frames_of env + length (ne_kills env) + 18 - length (pick own_move (ms @ [m]))
        < 8 * frames_of env + length (ne_kills env) + 18 - length (pick own_move ms)" by simp
    from less.hyps [OF this run] obtain ms' q' where "list_all (\<lambda>m. own_move m \<noteq> None) ms'"
      and "open_run env inner (ms @ m # ms') = Some q'" and "job_rests env q'" by auto
    with own show ?thesis by (intro exI [of _ "m # ms'"] exI [of _ q']) simp
  qed
qed

section \<open>What a client that comes late is given\<close>

lemma sent_bytes:
  assumes inv: "net_inv env p"
  shows "prefix (kind_bytes k (merged p)) (concat (ne_script env k))"
    and "EofEv \<in> set (tracked p) \<Longrightarrow> kind_bytes k (merged p) = concat (ne_script env k)"
proof -
  have "Inr f \<in> set (taken p k') \<Longrightarrow> frame_kind f = k'" for f k'
    using set_mono_prefix [OF net_taken [OF inv, of k']]
    by (auto simp: sent_frames_def fail_items_def split: option.splits)
  then have bytes: "kind_bytes k (merged p) = concat (map item_bytes (taken p k))"
    unfolding merged_def by (rule merged_bytes)
  have "prefix (concat (map item_bytes (taken p k)))
      (concat (map item_bytes (sent_frames k (ne_script env k) @ fail_items k (ne_fail env k))))"
    by (intro prefix_concat map_mono_prefix net_taken inv)
  then show "prefix (kind_bytes k (merged p)) (concat (ne_script env k))"
    unfolding bytes by (cases "ne_fail env k") simp_all
  show "kind_bytes k (merged p) = concat (ne_script env k)" if "EofEv \<in> set (tracked p)"
    unfolding bytes streams_read(5) [OF inv that] by simp
qed

lemma resting_log:
  assumes inv: "net_inv env p" and up: "list_all (\<lambda>m. net_step env p m = None) upstream"
  obtains gs err where "logged p = map FrameEv gs @ [final_event err]" and "err = None \<longleftrightarrow> no_failures env"
    and "\<forall>k. if no_failures env then kind_bytes k gs = concat (ne_script env k)
      else prefix (kind_bytes k gs) (concat (ne_script env k))"
proof -
  note done' = tracker_complete [OF inv up]
  obtain err where log: "tracked p = map FrameEv (merged p) @ [final_event err]" and err: "err = None \<longleftrightarrow> no_failures env"
    by (rule log_end [OF inv done'(1)])
  from log err have "no_failures env \<Longrightarrow> EofEv \<in> set (tracked p)" by simp
  with sent_bytes [OF inv] have bytes: "\<forall>k. if no_failures env then kind_bytes k (merged p) = concat (ne_script env k)
      else prefix (kind_bytes k (merged p)) (concat (ne_script env k))" by simp
  from log done'(2) have "logged p = map FrameEv (merged p) @ [final_event err]" by simp
  from this err bytes show thesis by (rule that)
qed

text \<open>A request is always answered, with a new relay that starts with the log so far.\<close>

lemma ask_answered:
  assumes run: "bcasted p = Some (st, out)" and open': "ReqRecv None \<notin> set (lp_bcast p)"
  obtains q rest where "add_bcast (ReqRecv (Some True)) p = Some q" and "\<not> started (next_relay st) out"
    and "effects (bcasted q) = out @ StartRelay (next_relay st) (logged p) # rest"
proof -
  from run have bcast: "bcast_inv (lp_bcast p) out st" by (rule FrameBroadcaster_bcast_inv)
  then have log: "b_frames st = logged p" and new: "\<not> started (next_relay st) out"
    by (auto simp: bcast_inv_def stream_inv_def roster_inv_def)
  from run have "rx_inv (lp_bcast p) out st"
    unfolding FrameBroadcaster_bcast_def by (rule bcast_rx.run_inv)
  with open' have "req_rx_ok st" by (simp add: rx_inv_def)
  then obtain st' rest where step: "bcast_step st (ReqRecv (Some True)) = Some (st', StartRelay (next_relay st) (logged p) # rest)"
    by (cases "frame_rx_ok st") (auto simp: bcast_step.simps FrameRelay_start_def log)
  from add_bcastI [OF run, of "ReqRecv (Some True)"] step obtain q
    where q: "add_bcast (ReqRecv (Some True)) p = Some q" by auto
  then have "effects (bcasted q) = out @ StartRelay (next_relay st) (logged p) # rest"
    using run step by (auto elim!: add_bcastE)
  with q new show thesis by (rule that)
qed

section \<open>Properties\<close>

text \<open>
  C5: clients cannot disturb a job. Whatever its clients do, however many they are, whenever they
  come and go and however slowly they read, reading the streams, tracking the child and the log
  take exactly the events that they take with nobody watching: the moves of the job, without the
  clients', are a schedule of the job alone, which leads to the same histories; and the one can
  go on when the other can.
\<close>

theorem clients_do_not_disturb_the_job:
  assumes run: "open_run env inner ms = Some p"
  shows "\<exists>p0. net_run env inner (pick own_move ms) = Some p0
    \<and> (\<forall>k. reads p k = reads p0 k) \<and> lp_wait p = lp_wait p0 \<and> logged p = logged p0
    \<and> (job_rests env p \<longleftrightarrow> list_all (\<lambda>m. net_step env p0 m = None) upstream)"
proof -
  obtain p0 where "net_run env inner (pick own_move ms) = Some p0" and same: "same_job_side p p0"
    by (rule open_run_inv [OF run])
  then show ?thesis
    using same_reads [OF same] job_rests_same [OF same] by (auto simp: same_job_side_def)
qed

text \<open>
  C4: every job is recorded. Among any clients, the tasks of a job make at most 8 moves per frame
  of output, one per request to kill the child and 18 more, and need no client for them: from
  every state they can go on alone until they have nothing left to do. Where that is so,
  the tracker has returned and holds no request to kill the child: each one that it took has been
  answered or dropped. When nothing has failed, the record says that the job has exited with what
  waiting for the child returned, and the time of that; when something has failed, the tracker
  has kept an error, and when that was waiting for the child, the record says \<open>Running\<close> for ever.
\<close>

theorem every_job_is_recorded:
  assumes run: "open_run env (JobTracker_track (Job_started i u pid t) ktx btx) ms = Some p" and ok: "script_ok env"
  shows "length (pick own_move ms) \<le> 8 * frames_of env + length (ne_kills env) + 18
    \<and> (job_rests env p \<longrightarrow> (\<exists>st out. waited p = Some (st, out) \<and> w_pc st = Complete
        \<and> mset (pick received_req (lp_wait p)) = mset (pick answered_req out) + mset (pick dropped_req out)
        \<and> (if no_failures env
           then ti_res (w_inner st) = Some (Inr ())
             \<and> (\<exists>status. ne_exit env = Inr status
                  \<and> state (ti_job (w_inner st)) = Exited (ExitStatus_from_std status))
             \<and> ended_at (ti_job (w_inner st)) = Some (ne_now env)
           else (\<exists>err. ti_res (w_inner st) = Some (Inl err))
             \<and> (isl (ne_exit env) \<longrightarrow> state (ti_job (w_inner st)) = Running pid))))
    \<and> (\<exists>ms' q. list_all (\<lambda>m. own_move m \<noteq> None) ms'
        \<and> open_run env (JobTracker_track (Job_started i u pid t) ktx btx) (ms @ ms') = Some q \<and> job_rests env q)"
proof -
  obtain p0 where run0: "net_run env (JobTracker_track (Job_started i u pid t) ktx btx) (pick own_move ms) = Some p0"
    and same: "same_job_side p p0" by (rule open_run_inv [OF run])
  from same have "lp_wait p = lp_wait p0" and "waited p = waited p0"
    by (simp_all add: same_job_side_def)
  then show ?thesis
    using own_length [OF run ok] job_recorded [OF run0 ok] job_rests_same [OF same, of env]
      job_comes_to_rest [OF run ok] by simp
qed

text \<open>The child of \<open>sample_env\<close>, with a client that gives up and one that reads nothing.\<close>

lemma sample_open_run:
  "open_run sample_env (JobTracker_track sample_started 0 0) [Ask False, Ask True, Own (Consume Stdout)]
   = Some ((net_start (JobTracker_track sample_started 0 0))
       \<lparr>lp_bcast := [ReqRecv (Some False), ReqRecv (Some True)], lp_out_reads := [read_of [104, 105]]\<rparr>)"
  by (simp add: open_run_def final_def open_task_def net_start_def consume_next_def next_read_def
        sample_env_def consume_output_def add_read_def add_bcast_def Let_def job_moves_def
        FrameBroadcaster_bcast_def bcast_step.simps bcast_start_def FrameRelay_start_def)

lemma clients_do_not_disturb_the_job_witness:
  "\<exists>p0. net_run sample_env (JobTracker_track sample_started 0 0) [Consume Stdout] = Some p0
     \<and> reads p0 Stdout = [read_of [104, 105]]"
proof -
  from clients_do_not_disturb_the_job [OF sample_open_run] obtain p0
    where "net_run sample_env (JobTracker_track sample_started 0 0) [Consume Stdout] = Some p0"
    and "reads p0 Stdout = [read_of [104, 105]]" by (auto dest: spec [of _ Stdout])
  then show ?thesis by blast
qed

lemma every_job_is_recorded_witness:
  "\<exists>ms q st out. open_run sample_env (JobTracker_track sample_started 0 0)
        ([Ask False, Ask True, Own (Consume Stdout)] @ ms) = Some q
     \<and> waited q = Some (st, out) \<and> state (ti_job (w_inner st)) = Exited (ExitStatus_from_std (OsCode 0))"
proof -
  note thm_at = every_job_is_recorded [OF _ sample_env_facts(1), folded sample_started_def]
  from thm_at [OF sample_open_run [unfolded sample_started_def], folded sample_started_def] obtain ms q
    where q: "open_run sample_env (JobTracker_track sample_started 0 0)
        ([Ask False, Ask True, Own (Consume Stdout)] @ ms) = Some q"
    and "job_rests sample_env q" by blast
  with thm_at [OF q [unfolded sample_started_def], folded sample_started_def] obtain st out
    where "waited q = Some (st, out)" "state (ti_job (w_inner st)) = Exited (ExitStatus_from_std (OsCode 0))"
    using sample_env_facts(4) by (auto simp: sample_env_def)
  with q show ?thesis by blast
qed

text \<open>
  C19: a client that comes late gets everything. Once the job rests, however long its output, a
  request for the log is answered with a new relay that starts with the whole log: the frames of
  both streams, all of them when nothing has failed, and the event that ends it, end of file or
  an error. The relay has a client's worth of it left to send and sends exactly that.
\<close>

theorem late_clients_get_everything:
  assumes run: "open_run env inner ms = Some p" and ok: "script_ok env" and rests: "job_rests env p"
  shows "\<exists>q r gs err rest st. open_step env p (Ask True) = Some q \<and> \<not> started r (effects (bcasted p))
    \<and> effects (bcasted q) = effects (bcasted p) @ StartRelay r (map FrameEv gs @ [final_event err]) # rest
    \<and> (err = None \<longleftrightarrow> no_failures env)
    \<and> (\<forall>k. if no_failures env then kind_bytes k gs = concat (ne_script env k)
         else prefix (kind_bytes k gs) (concat (ne_script env k)))
    \<and> FrameRelay_relay (map FrameEv gs @ [final_event err]) (replicate (Suc (length gs)) (ClientSend True))
      = Some (st, map FrameEv gs @ [final_event err])"
proof -
  obtain p0 where run0: "net_run env inner (pick own_move ms) = Some p0" and same: "same_job_side p p0"
    and open': "ReqRecv None \<notin> set (lp_bcast p)" by (rule open_run_inv [OF run])
  from rests job_rests_same [OF same] have "list_all (\<lambda>m. net_step env p0 m = None) upstream" by blast
  with net_run_inv(1) [OF run0 ok] obtain gs err
    where log: "logged p0 = map FrameEv gs @ [final_event err]" and err: "err = None \<longleftrightarrow> no_failures env"
    and bytes: "\<forall>k. if no_failures env then kind_bytes k gs = concat (ne_script env k)
      else prefix (kind_bytes k gs) (concat (ne_script env k))"
    by (rule resting_log)
  from same obtain bst where "bcasted p = Some (bst, effects (bcasted p))"
    unfolding same_job_side_def using effects_run by blast
  with open' obtain q rest where "add_bcast (ReqRecv (Some True)) p = Some q"
    and "\<not> started (next_relay bst) (effects (bcasted p))"
    and "effects (bcasted q) = effects (bcasted p) @ StartRelay (next_relay bst) (map FrameEv gs @ [final_event err]) # rest"
    using same_job_view(5) [OF same] log by (rule_tac ask_answered) auto
  moreover obtain st where "FrameRelay_relay (map FrameEv gs @ [final_event err])
      (replicate (Suc (length gs)) (ClientSend True)) = Some (st, map FrameEv gs @ [final_event err])"
  proof -
    let ?fs = "map FrameEv gs @ [final_event err]"
    have "held (relay_start ?fs) = ?fs" by simp
    with relay_delivers_what_it_holds [of ?fs "[]" "relay_start ?fs" "[]"] that show thesis
      by (auto simp: FrameRelay_relay_def closed_only_unheld_def)
  qed
  ultimately show ?thesis using err bytes by (metis open_step.simps(3))
qed

lemma late_clients_get_everything_witness:
  "\<exists>ms q q' r gs. open_run sample_env (JobTracker_track sample_started 0 0) ms = Some q
     \<and> open_step sample_env q (Ask True) = Some q' \<and> kind_bytes Stdout gs = [104, 105] \<and> kind_bytes Stderr gs = []
     \<and> StartRelay r (map FrameEv gs @ [EofEv]) \<in> set (effects (bcasted q'))"
proof -
  obtain ms q where q: "open_run sample_env (JobTracker_track sample_started 0 0) ms = Some q" "job_rests sample_env q"
    using job_comes_to_rest [OF sample_open_run sample_env_facts(1)] by blast
  from late_clients_get_everything [OF q(1) sample_env_facts(1) q(2)] obtain q' r gs err rest
    where "open_step sample_env q (Ask True) = Some q'"
    and out: "effects (bcasted q') = effects (bcasted q) @ StartRelay r (map FrameEv gs @ [final_event err]) # rest"
    and "err = None" and bytes: "\<forall>k. kind_bytes k gs = concat (ne_script sample_env k)"
    using sample_env_facts(4) by auto
  moreover from bytes have "kind_bytes Stdout gs = [104, 105]" and "kind_bytes Stderr gs = []"
    by (simp_all add: sample_env_def)
  moreover from out have "StartRelay r (map FrameEv gs @ [final_event err]) \<in> set (effects (bcasted q'))" by simp
  ultimately show ?thesis using q(1) by (intro exI conjI) auto
qed

end
