(* ===== verification/Startup.thy ===== *)
theory Startup
  imports Client
begin

text \<open>
  How the two programs come up: \<open>src/src/utils.rs\<close>, the TLS part of \<open>src/src/grpc.rs\<close>
  (\<open>init_crypto\<close>, \<open>ClientOpts::connect\<close>, \<open>ServerOpts::run_server\<close>) and the \<open>main\<close> functions of
  \<open>src/src/bin/server.rs\<close> and \<open>src/src/bin/client.rs\<close>. The file system, rustls and tonic are
  parameters; what the code hands to them is data. Addresses and endpoints are type
  variables.
\<close>

section \<open>Errors with a context\<close>

text \<open>\<open>anyhow::Error\<close>: a cause, wrapped in contexts.\<close>

datatype failure = IoCause io_error | TransportCause string | Bare string | Context string failure

definition with_context :: "string \<Rightarrow> failure + 'a \<Rightarrow> failure + 'a" where
  "with_context msg = map_err (Context msg)"

section \<open>Files\<close>

type_synonym pem = "u8 list"

record identity =
  identity_cert :: pem
  identity_key :: pem




section \<open>The crypto provider\<close>

datatype suite = TLS13_AES_256_GCM_SHA384 | TLS13_CHACHA20_POLY1305_SHA256 | TLS13_AES_128_GCM_SHA256
  | OtherSuite string



section \<open>The client side\<close>




datatype command = Run string "string list" | Logs string | Ps string | Kill string



text \<open>The request of each subcommand.\<close>

datatype api_request =
    CallSpawn spawn_request
  | CallLogs logs_request
  | CallPs ps_request
  | CallKill pb_kill_request

primrec client_request :: "command \<Rightarrow> api_request" where
  "client_request (Run cmd as) = CallSpawn \<lparr>sreq_name = cmd, sreq_args = as\<rparr>"
| "client_request (Logs i) = CallLogs (LogsRequest i)"
| "client_request (Ps i) = CallPs (PsRequest i)"
| "client_request (Kill i) = CallKill (PbKillRequest i)"

section \<open>The server side\<close>






section \<open>Lemmas\<close>

lemma with_context_Inr [simp]: "with_context msg r = Inr x \<longleftrightarrow> r = Inr x"
  by (cases r) (simp_all add: with_context_def)

lemma map_err_Inr [simp]: "map_err f r = Inr x \<longleftrightarrow> r = Inr x"
  by (cases r) simp_all

lemma identity_eta [simp]: "\<lparr>identity_cert = identity_cert i, identity_key = identity_key i\<rparr> = i"
  by simp




section \<open>Properties\<close>







end
