(* ===== verification/WinStream.thy ===== *)
theory WinStream
  imports Frames
begin

text \<open>
  \<open>src/src/proc/spawn/win.rs\<close>, second part: \<open>WinHandleOutputStream\<close>, an output stream of a
  Windows child. A thread (\<open>read_handle\<close>) reads the pipe and sends what it read into a
  channel of the standard library; \<open>poll_read\<close> takes it out again, in pieces of the size the
  caller asks for. The locale \<open>byte_source\<close> is what \<open>consume_output\<close> relies on.
\<close>

section \<open>The reading thread\<close>

text \<open>The HRESULT of \<open>ERROR_BROKEN_PIPE\<close>.\<close>

definition broken_pipe :: "32 word" where
  "broken_pipe = 0x8007006D"

text \<open>
  \<open>RdLoop\<close>: at \<open>ReadFile\<close>; \<open>RdSend bs\<close>: at \<open>tx.send(Ok(bs))\<close>; \<open>RdSendErr e\<close>: at
  \<open>tx.send(Err(e))\<close>; \<open>RdPanic\<close>: the panic of the slice of the buffer.
\<close>

datatype reader_pc = RdLoop | RdSend "u8 list" | RdSendErr io_error | RdDone | RdPanic

text \<open>
  \<open>FileRead res buf n\<close>: \<open>ReadFile\<close> returned \<open>res\<close>, with the buffer and \<open>bs_read\<close> as it left
  them. \<open>RdSent ok\<close>: the blocking send returned.
\<close>

datatype reader_event = FileRead "32 word + unit" "u8 list" u32 | RdSent bool

datatype reader_out = Sent "io_error + u8 list" | Woke

definition after_read :: "u8 list \<Rightarrow> u32 \<Rightarrow> reader_pc" where
  "after_read buf n = (if length buf < unat n then RdPanic else RdSend (take (unat n) buf))"

fun read_step ::
  "(32 word \<Rightarrow> string) \<Rightarrow> reader_pc \<Rightarrow> reader_event \<Rightarrow> (reader_pc \<times> reader_out list) option" where
  "read_step hr_fmt RdLoop (FileRead (Inl err) buf n) =
     (if err = broken_pipe then Some (after_read buf n, [])
      else Some (RdSendErr (CustomError ''Other'' (''ReadFile: '' @ hr_fmt err)), []))"
| "read_step hr_fmt RdLoop (FileRead (Inr u) buf n) = Some (after_read buf n, [])"
| "read_step hr_fmt (RdSendErr e) (RdSent ok) =
     Some (RdDone, (if ok then [Sent (Inl e)] else []) @ [Woke])"
| "read_step hr_fmt (RdSend bs) (RdSent ok) =
     (if \<not> ok then Some (RdDone, [])
      else Some (if bs = [] then RdDone else RdLoop, [Sent (Inr bs), Woke]))"
| "read_step hr_fmt pc ev = None"

definition WinStream_read_handle ::
  "(32 word \<Rightarrow> string) \<Rightarrow> reader_event list \<Rightarrow> (reader_pc \<times> reader_out list) option" where
  "WinStream_read_handle hr_fmt es = run (read_step hr_fmt) RdLoop es"

fun sent_item :: "reader_out \<Rightarrow> (io_error + u8 list) option" where
  "sent_item (Sent x) = Some x"
| "sent_item Woke = None"

text \<open>What one call of \<open>ReadFile\<close> took from the pipe, and the contract of \<open>ReadFile\<close>.\<close>

fun file_bytes :: "reader_event \<Rightarrow> u8 list option" where
  "file_bytes (FileRead (Inr u) buf n) = Some (take (unat n) buf)"
| "file_bytes (FileRead (Inl err) buf n) = (if err = broken_pipe then Some (take (unat n) buf) else None)"
| "file_bytes (RdSent ok) = None"

fun file_ok :: "reader_event \<Rightarrow> bool" where
  "file_ok (FileRead res buf n) \<longleftrightarrow> length buf = 1024 \<and> unat n \<le> 1024"
| "file_ok (RdSent ok) \<longleftrightarrow> True"

definition pipe_bytes :: "reader_event list \<Rightarrow> u8 list" where
  "pipe_bytes es = concat (pick file_bytes es)"

text \<open>
  What has been sent are the pieces read, in order; only the one in hand is missing. An
  empty piece, an error or a refused send is the end.
\<close>

definition pieces :: "u8 list list \<Rightarrow> (io_error + u8 list) list" where
  "pieces bss = map Inr bss"

definition read_error :: "(32 word \<Rightarrow> string) \<Rightarrow> io_error \<Rightarrow> bool" where
  "read_error hr_fmt e \<longleftrightarrow>
     (\<exists>err. err \<noteq> broken_pipe \<and> e = CustomError ''Other'' (''ReadFile: '' @ hr_fmt err))"

lemma read_errorI:
  "err \<noteq> broken_pipe \<Longrightarrow> read_error hr_fmt (CustomError ''Other'' (''ReadFile: '' @ hr_fmt err))"
  unfolding read_error_def by blast

definition reader_inv ::
  "(32 word \<Rightarrow> string) \<Rightarrow> reader_event list \<Rightarrow> reader_out list \<Rightarrow> reader_pc \<Rightarrow> bool" where
  "reader_inv hr_fmt es out pc \<longleftrightarrow>
     (case pc of
        RdLoop \<Rightarrow> pick sent_item out = pieces (pick file_bytes es) \<and> [] \<notin> set (pick file_bytes es)
          \<and> RdSent False \<notin> set es
      | RdSend bs \<Rightarrow> (\<exists>bss. pick file_bytes es = bss @ [bs] \<and> pick sent_item out = pieces bss
          \<and> [] \<notin> set bss) \<and> RdSent False \<notin> set es
      | RdSendErr e \<Rightarrow> pick sent_item out = pieces (pick file_bytes es) \<and> [] \<notin> set (pick file_bytes es)
          \<and> read_error hr_fmt e
          \<and> RdSent False \<notin> set es
      | RdDone \<Rightarrow> (\<exists>bss. prefix bss (pick file_bytes es) \<and>
            (pick sent_item out = pieces bss \<or> (\<exists>e. read_error hr_fmt e \<and> pick sent_item out = pieces bss @ [Inl e])))
          \<and> (RdSent False \<notin> set es \<longrightarrow>
               (\<exists>bss. [] \<notin> set bss \<and> pick file_bytes es = bss @ [[]]
                  \<and> pick sent_item out = pieces (bss @ [[]]))
               \<or> (\<exists>e. pick sent_item out = pieces (pick file_bytes es) @ [Inl e]))
      | RdPanic \<Rightarrow> \<not> list_all file_ok es)"

lemma pieces_simps [simp]:
  "pieces [] = []" "pieces (bs # bss) = Inr bs # pieces bss"
  "pieces (bss @ css) = pieces bss @ pieces css"
  by (simp_all add: pieces_def)

lemma reader_inv_after:
  assumes "reader_inv hr_fmt es out RdLoop" and "file_bytes e = Some (take (unat n) buf)"
    and "file_ok e \<longrightarrow> unat n \<le> length buf" and "\<forall>ok. e \<noteq> RdSent ok"
  shows "reader_inv hr_fmt (es @ [e]) out (after_read buf n)"
  using assms by (auto simp: reader_inv_def after_read_def)

lemma reader_inv_step:
  assumes inv: "reader_inv hr_fmt es out pc" and step: "read_step hr_fmt pc e = Some (pc', out')"
  shows "reader_inv hr_fmt (es @ [e]) (out @ out') pc'"
  using step
proof (cases "(hr_fmt, pc, e)" rule: read_step.cases)
  case (1 h err buf n)
  show ?thesis
  proof (cases "err = broken_pipe")
    case True
    with 1 step inv show ?thesis by (auto intro!: reader_inv_after)
  next
    case False
    with 1 step have "pc' = RdSendErr (CustomError ''Other'' (''ReadFile: '' @ hr_fmt err))" and "out' = []"
      by simp_all
    with 1 inv read_errorI [OF False, of hr_fmt] False show ?thesis by (simp add: reader_inv_def)
  qed
next
  case (2 h u buf n)
  with step inv show ?thesis by (auto intro!: reader_inv_after)
next
  case (3 h e' ok)
  with step inv show ?thesis by (auto simp: reader_inv_def)
next
  case (4 h bs ok)
  with step inv show ?thesis by (auto simp: reader_inv_def split: if_splits)
qed (simp_all)

interpretation win_reader: task "read_step hr_fmt" RdLoop "reader_inv hr_fmt" for hr_fmt
  by unfold_locales (simp add: reader_inv_def, rule reader_inv_step)

lemma WinStream_read_handle_inv:
  "WinStream_read_handle hr_fmt es = Some (pc, out) \<Longrightarrow> reader_inv hr_fmt es out pc"
  unfolding WinStream_read_handle_def by (rule win_reader.run_inv)

section \<open>Polling\<close>

text \<open>
  The fields that a poll works on. The other two, the receiver \<open>rx\<close> and the shared \<open>waker\<close>, tie
  the stream to its thread: what \<open>rx\<close> returns is an argument of a poll, and
  the theorems on thread and polls together say that it is what the thread has sent, in order.
  A poll that finds nothing is pending; when its task polls again is up to the events.
\<close>

record win_stream =
  ws_buffer :: "u8 list"
  ws_pos :: nat

definition WinStream_start :: win_stream where
  "WinStream_start = \<lparr>ws_buffer = [], ws_pos = 0\<rparr>"

text \<open>What \<open>try_recv\<close> on the channel returned, and what a poll returns to its caller.\<close>

datatype try_recv = TryOk "io_error + u8 list" | TryEmpty | TryDisconnected

datatype poll = Pending | ReadyErr io_error | ReadyOk "u8 list"

text \<open>The part of \<open>poll_read\<close> that copies from the buffer, with room for \<open>room\<close> bytes.\<close>

definition copy_out :: "win_stream \<Rightarrow> nat \<Rightarrow> win_stream \<times> poll" where
  "copy_out s room =
     (let avail = length (ws_buffer s) - ws_pos s;
          to_copy = min avail room
      in (s\<lparr>ws_pos := ws_pos s + to_copy\<rparr>, ReadyOk (take to_copy (drop (ws_pos s) (ws_buffer s)))))"

definition WinStream_poll_read :: "win_stream \<Rightarrow> try_recv \<Rightarrow> nat \<Rightarrow> win_stream \<times> poll" where
  "WinStream_poll_read s recv room =
     (if ws_pos s \<ge> length (ws_buffer s) then
        (case recv of
           TryOk (Inr bs) \<Rightarrow> copy_out (s\<lparr>ws_buffer := bs, ws_pos := 0\<rparr>) room
         | TryOk (Inl e) \<Rightarrow> (s, ReadyErr e)
         | TryEmpty \<Rightarrow> (s, Pending)
         | TryDisconnected \<Rightarrow> (s, ReadyOk []))
      else copy_out s room)"

text \<open>
  A poll as an event: \<open>recv\<close> is \<open>None\<close> when the channel is not consulted, because the buffer
  still holds bytes.
\<close>

datatype poll_event = Polled "try_recv option" nat

fun poll_step :: "win_stream \<Rightarrow> poll_event \<Rightarrow> (win_stream \<times> poll list) option" where
  "poll_step s (Polled recv room) =
     (if (ws_pos s \<ge> length (ws_buffer s)) = (recv \<noteq> None)
      then Some (apsnd (\<lambda>p. [p]) (WinStream_poll_read s (case recv of Some r \<Rightarrow> r | None \<Rightarrow> TryEmpty) room))
      else None)"

fun taken :: "poll_event \<Rightarrow> (io_error + u8 list) option" where
  "taken (Polled (Some (TryOk x)) room) = Some x"
| "taken (Polled (Some TryEmpty) room) = None"
| "taken (Polled (Some TryDisconnected) room) = None"
| "taken (Polled None room) = None"

definition ok_bytes :: "(io_error + u8 list) list \<Rightarrow> u8 list" where
  "ok_bytes xs = concat (map (\<lambda>x. case x of Inl e \<Rightarrow> [] | Inr bs \<Rightarrow> bs) xs)"

primrec poll_bytes :: "poll \<Rightarrow> u8 list" where
  "poll_bytes Pending = []"
| "poll_bytes (ReadyErr e) = []"
| "poll_bytes (ReadyOk bs) = bs"

definition delivered :: "poll list \<Rightarrow> u8 list" where
  "delivered ps = concat (map poll_bytes ps)"

text \<open>Everything taken from the channel has been delivered, or is in the buffer.\<close>

definition poll_inv :: "poll_event list \<Rightarrow> poll list \<Rightarrow> win_stream \<Rightarrow> bool" where
  "poll_inv es out s \<longleftrightarrow>
     ws_pos s \<le> length (ws_buffer s)
     \<and> delivered out @ drop (ws_pos s) (ws_buffer s) = ok_bytes (pick taken es)"

lemma delivered_simps [simp]:
  "delivered [] = []" "delivered (p # ps) = poll_bytes p @ delivered ps"
  "delivered (ps @ qs) = delivered ps @ delivered qs"
  by (simp_all add: delivered_def)

lemma ok_bytes_simps [simp]:
  "ok_bytes [] = []" "ok_bytes (Inl e # xs) = ok_bytes xs" "ok_bytes (Inr bs # xs) = bs @ ok_bytes xs"
  "ok_bytes (xs @ ys) = ok_bytes xs @ ok_bytes ys"
  by (simp_all add: ok_bytes_def)

lemma copy_out_facts:
  assumes "copy_out s room = (s', p)" and "ws_pos s \<le> length (ws_buffer s)"
  shows "ws_pos s' \<le> length (ws_buffer s')"
    and "poll_bytes p @ drop (ws_pos s') (ws_buffer s') = drop (ws_pos s) (ws_buffer s)"
    and "length (poll_bytes p) \<le> room"
    and "length (poll_bytes p) = min (length (ws_buffer s) - ws_pos s) room"
proof -
  let ?n = "min (length (ws_buffer s) - ws_pos s) room"
  let ?rest = "drop (ws_pos s) (ws_buffer s)"
  from assms(1) have s': "s' = s\<lparr>ws_pos := ws_pos s + ?n\<rparr>" and p: "p = ReadyOk (take ?n ?rest)"
    by (auto simp: copy_out_def Let_def)
  have "drop (ws_pos s + ?n) (ws_buffer s) = drop ?n ?rest" by (simp only: drop_drop add.commute)
  then show "poll_bytes p @ drop (ws_pos s') (ws_buffer s') = ?rest"
    by (simp add: s' p del: drop_drop)
  show "ws_pos s' \<le> length (ws_buffer s')" using assms(2) by (simp add: s')
  show "length (poll_bytes p) \<le> room" and "length (poll_bytes p) = ?n" by (simp_all add: p)
qed

lemma poll_step_cases [consumes 1, case_names copied fetched failed empty closed]:
  assumes "poll_step s e = Some (s', out)"
  obtains
    room p where "e = Polled None room" "ws_pos s < length (ws_buffer s)" "copy_out s room = (s', p)" "out = [p]"
  | bs room p where "e = Polled (Some (TryOk (Inr bs))) room" "length (ws_buffer s) \<le> ws_pos s"
      "copy_out (s\<lparr>ws_buffer := bs, ws_pos := 0\<rparr>) room = (s', p)" "out = [p]"
  | err room where "e = Polled (Some (TryOk (Inl err))) room" "length (ws_buffer s) \<le> ws_pos s"
      "s' = s" "out = [ReadyErr err]"
  | room where "e = Polled (Some TryEmpty) room" "length (ws_buffer s) \<le> ws_pos s"
      "s' = s" "out = [Pending]"
  | room where "e = Polled (Some TryDisconnected) room" "length (ws_buffer s) \<le> ws_pos s"
      "s' = s" "out = [ReadyOk []]"
proof (cases e)
  case (Polled recv room)
  show thesis
  proof (cases recv)
    case None
    with assms Polled that(1) show thesis
      by (cases "copy_out s room") (auto simp: WinStream_poll_read_def split: if_splits)
  next
    case (Some r)
    with assms Polled have empty: "length (ws_buffer s) \<le> ws_pos s" by (auto split: if_splits)
    show thesis
    proof (cases r)
      case (TryOk x)
      show thesis
      proof (cases x)
        case (Inl err)
        with assms Polled Some TryOk empty show thesis
          by (intro that(3)) (auto simp: WinStream_poll_read_def)
      next
        case (Inr bs)
        obtain s1 p where c: "copy_out (s\<lparr>ws_buffer := bs, ws_pos := 0\<rparr>) room = (s1, p)"
          by (cases "copy_out (s\<lparr>ws_buffer := bs, ws_pos := 0\<rparr>) room")
        with assms Polled Some TryOk empty Inr have "s1 = s'" and "out = [p]"
          by (simp_all add: WinStream_poll_read_def)
        with c Polled Some TryOk empty Inr show thesis by (intro that(2)) simp_all
      qed
    next
      case TryEmpty
      with assms Polled Some empty show thesis by (intro that(4)) (auto simp: WinStream_poll_read_def)
    next
      case TryDisconnected
      with assms Polled Some empty show thesis by (intro that(5)) (auto simp: WinStream_poll_read_def)
    qed
  qed
qed

declare poll_step.simps [simp del]

lemma poll_inv_step:
  assumes inv: "poll_inv es out s" and step: "poll_step s e = Some (s', out')"
  shows "poll_inv (es @ [e]) (out @ out') s'"
  using step
proof (cases rule: poll_step_cases)
  case (copied room p)
  from inv have pos: "ws_pos s \<le> length (ws_buffer s)" by (simp add: poll_inv_def)
  note facts = copy_out_facts(1,2) [OF copied(3) pos]
  with inv copied show ?thesis by (simp add: poll_inv_def)
next
  case (fetched bs room p)
  note facts = copy_out_facts(1,2) [OF fetched(3)]
  with inv fetched show ?thesis by (simp add: poll_inv_def)
qed (use inv in \<open>auto simp: poll_inv_def\<close>)

interpretation win_poll: task poll_step WinStream_start poll_inv
  by unfold_locales (simp add: poll_inv_def WinStream_start_def, rule poll_inv_step)

definition WinStream_polls :: "poll_event list \<Rightarrow> (win_stream \<times> poll list) option" where
  "WinStream_polls es = run poll_step WinStream_start es"

text \<open>No poll gives more bytes than the caller has room for.\<close>

primrec room_of :: "poll_event \<Rightarrow> nat" where
  "room_of (Polled recv room) = room"

definition within_inv :: "poll_event list \<Rightarrow> poll list \<Rightarrow> win_stream \<Rightarrow> bool" where
  "within_inv es out s \<longleftrightarrow>
     ws_pos s \<le> length (ws_buffer s) \<and> list_all2 (\<lambda>e p. length (poll_bytes p) \<le> room_of e) es out"

lemma within_inv_step:
  assumes inv: "within_inv es out s" and step: "poll_step s e = Some (s', out')"
  shows "within_inv (es @ [e]) (out @ out') s'"
  using step
proof (cases rule: poll_step_cases)
  case (copied room p)
  with copy_out_facts(1,3) [OF copied(3)] inv show ?thesis
    by (simp add: within_inv_def list_all2_appendI)
next
  case (fetched bs room p)
  with copy_out_facts(1,3) [OF fetched(3)] inv show ?thesis
    by (simp add: within_inv_def list_all2_appendI)
qed (use inv in \<open>auto simp: within_inv_def list_all2_appendI\<close>)

interpretation win_within: task poll_step WinStream_start within_inv
  by unfold_locales (simp add: within_inv_def WinStream_start_def, rule within_inv_step)

section \<open>The interface of an output stream\<close>

text \<open>
  What \<open>consume_output\<close> asks of an \<open>AsyncRead\<close> that it polls with room for 1024 bytes:
  \<open>source\<close> are the bytes that went into the stream. The lemma of the locale turns polls into
  the reads of \<open>consume_output\<close>.
\<close>

fun read_of :: "poll \<Rightarrow> consume_event option" where
  "read_of Pending = None"
| "read_of (ReadyErr e) = Some (ReadDone (Inl e))"
| "read_of (ReadyOk bs) = Some (ReadDone (Inr (bs @ replicate (1024 - length bs) 0, length bs)))"

text \<open>The reads among the events of \<open>consume_output\<close>, and the bytes of the frames it has sent.\<close>

fun done_read :: "consume_event \<Rightarrow> consume_event option" where
  "done_read (ReadDone r) = Some (ReadDone r)"
| "done_read (SendDone ok) = None"

definition frame_bytes :: "(tracker_error + frame) list \<Rightarrow> u8 list" where
  "frame_bytes xs = concat (map (\<lambda>x. case x of Inl e \<Rightarrow> [] | Inr f \<Rightarrow> frame_bs f) xs)"

lemma chunks_reads: "chunks (pick done_read cs) = chunks cs"
proof (induction cs)
  case Nil
  then show ?case by simp
next
  case (Cons e cs)
  then show ?case by (cases e) (simp_all split: option.splits)
qed

lemma within_reads: "list_all read_within (pick done_read cs) \<longleftrightarrow> list_all read_within cs"
proof (induction cs)
  case Nil
  then show ?case by simp
next
  case (Cons e cs)
  then show ?case by (cases e) simp_all
qed

lemma frame_bytes_sent:
  "frame_bytes (sent_frames k bss) = concat bss"
  "frame_bytes (sent_frames k bss @ [Inl err]) = concat bss"
  by (simp_all add: frame_bytes_def sent_frames_def comp_def)

locale byte_source =
  fixes polls :: "'e list \<Rightarrow> ('s \<times> poll list) option"
    and room :: "'e \<Rightarrow> nat"
    and source :: "'e list \<Rightarrow> u8 list"
  assumes polls_within: "polls es = Some (s, ps) \<Longrightarrow> list_all2 (\<lambda>e p. length (poll_bytes p) \<le> room e) es ps"
    and polls_prefix: "polls es = Some (s, ps) \<Longrightarrow> prefix (delivered ps) (source es)"
begin

lemma reads_within:
  assumes run: "polls es = Some (s, ps)" and room: "list_all (\<lambda>e. room e = 1024) es"
  shows "list_all read_within (pick read_of ps)"
proof -
  from polls_within [OF run] room have "\<forall>p \<in> set ps. length (poll_bytes p) \<le> 1024"
    by (induction rule: list_all2_induct) simp_all
  then show ?thesis
  proof (induction ps)
    case Nil
    then show ?case by simp
  next
    case (Cons p ps)
    then show ?case by (cases p) auto
  qed
qed

lemma chunks_delivered: "concat (chunks (pick read_of ps)) = delivered ps"
proof (induction ps)
  case Nil
  then show ?case by simp
next
  case (Cons p ps)
  then show ?case by (cases p) auto
qed

lemma consumed_prefix:
  assumes run: "polls es = Some (s, ps)" and room: "list_all (\<lambda>e. room e = 1024) es"
    and consume: "consume_output k cs = Some (pc, out)" and reads: "pick done_read cs = pick read_of ps"
  shows "pc \<noteq> ConsumePanic \<and> prefix (frame_bytes out) (source es)"
proof -
  from reads_within [OF run room] have within: "list_all read_within cs"
    by (simp add: within_reads reads [symmetric])
  from consume_output_frames [OF consume within] obtain bss where "prefix bss (chunks cs)"
    and "frame_bytes out = concat bss" by (auto simp: frame_bytes_sent)
  then have "prefix (frame_bytes out) (concat (chunks (pick read_of ps)))"
    by (simp add: prefix_concat chunks_reads reads [symmetric])
  also note chunks_delivered
  also note polls_prefix [OF run]
  finally show ?thesis using consume_no_panic [OF consume within] by blast
qed

end

interpretation win_source: byte_source WinStream_polls room_of "\<lambda>es. ok_bytes (pick taken es)"
proof
  fix es s ps assume run: "WinStream_polls es = Some (s, ps)"
  from win_within.run_inv [OF run [unfolded WinStream_polls_def]]
  show "list_all2 (\<lambda>e p. length (poll_bytes p) \<le> room_of e) es ps" by (simp add: within_inv_def)
  from win_poll.run_inv [OF run [unfolded WinStream_polls_def]]
  show "prefix (delivered ps) (ok_bytes (pick taken es))"
    unfolding poll_inv_def by (metis prefixI)
qed

section \<open>Properties\<close>

lemma ok_bytes_pieces: "ok_bytes (pieces bss) = concat bss"
  by (induction bss) simp_all

text \<open>
  The reading thread of a Windows output stream sends what it read from the pipe, piece by
  piece and in order, then possibly one error; an empty piece is the last. Unless a send is
  refused it ends only after an empty read or an error, with everything sent. The slice of
  its buffer never panics.
\<close>

lemma win_reader_sends_the_pipe:
  assumes run: "WinStream_read_handle hr_fmt es = Some (pc, out)" and files: "list_all file_ok es"
  shows "pc \<noteq> RdPanic
    \<and> (\<exists>bss tail. pick sent_item out = pieces bss @ tail \<and> prefix bss (pick file_bytes es)
         \<and> (tail = [] \<or> (\<exists>e. read_error hr_fmt e \<and> tail = [Inl e] \<and> pc = RdDone)))
    \<and> (pc = RdDone \<and> RdSent False \<notin> set es \<longrightarrow>
         ok_bytes (pick sent_item out) = pipe_bytes es
         \<and> ([] \<in> set (pick file_bytes es) \<or> (\<exists>e. Inl e \<in> set (pick sent_item out))))"
proof -
  note inv = WinStream_read_handle_inv [OF run] and ok = ok_bytes_pieces
  with files have "pc \<noteq> RdPanic" by (auto simp: reader_inv_def)
  moreover have "\<exists>bss tail. pick sent_item out = pieces bss @ tail \<and> prefix bss (pick file_bytes es)
         \<and> (tail = [] \<or> (\<exists>e. read_error hr_fmt e \<and> tail = [Inl e] \<and> pc = RdDone))"
  proof (cases pc)
    case RdLoop
    with inv show ?thesis
      by (intro exI [of _ "pick file_bytes es"] exI [of _ "[]"]) (simp add: reader_inv_def)
  next
    case (RdSend bs)
    with inv obtain bss where "pick file_bytes es = bss @ [bs]" and "pick sent_item out = pieces bss"
      by (auto simp: reader_inv_def)
    then show ?thesis by (intro exI [of _ bss] exI [of _ "[]"]) simp
  next
    case (RdSendErr e)
    with inv show ?thesis
      by (intro exI [of _ "pick file_bytes es"] exI [of _ "[]"]) (simp add: reader_inv_def)
  next
    case RdDone
    with inv obtain bss where pre: "prefix bss (pick file_bytes es)"
      and "pick sent_item out = pieces bss \<or> (\<exists>e. read_error hr_fmt e \<and> pick sent_item out = pieces bss @ [Inl e])"
      by (auto simp: reader_inv_def)
    then show ?thesis
    proof (elim disjE exE)
      assume "pick sent_item out = pieces bss"
      with pre show ?thesis by (intro exI [of _ bss] exI [of _ "[]"]) simp
    next
      fix e assume "read_error hr_fmt e \<and> pick sent_item out = pieces bss @ [Inl e]"
      with pre RdDone show ?thesis by (intro exI [of _ bss] exI [of _ "[Inl e]"]) auto
    qed
  next
    case RdPanic
    with calculation show ?thesis by simp
  qed
  moreover have "ok_bytes (pick sent_item out) = pipe_bytes es
      \<and> ([] \<in> set (pick file_bytes es) \<or> (\<exists>e. Inl e \<in> set (pick sent_item out)))"
    if "pc = RdDone \<and> RdSent False \<notin> set es"
    using inv that by (auto simp: reader_inv_def pipe_bytes_def ok)
  ultimately show ?thesis by blast
qed

definition sample_pipe :: "reader_event list" where
  "sample_pipe =
     [FileRead (Inr ()) ([104, 105] @ replicate 1022 0) 2, RdSent True,
      FileRead (Inl broken_pipe) (replicate 1024 0) 0, RdSent True]"

lemma sample_pipe_run:
  "WinStream_read_handle (\<lambda>e. []) sample_pipe =
     Some (RdDone, [Sent (Inr [104, 105]), Woke, Sent (Inr []), Woke])"
  by (simp add: WinStream_read_handle_def sample_pipe_def after_read_def)

lemma sample_pipe_ok: "list_all file_ok sample_pipe"
  by (simp add: sample_pipe_def)

lemma win_reader_sample:
  "ok_bytes [Inr [104, 105], Inr []] = pipe_bytes sample_pipe"
proof -
  have "RdSent False \<notin> set sample_pipe" by (simp add: sample_pipe_def)
  with win_reader_sends_the_pipe [OF sample_pipe_run sample_pipe_ok] show ?thesis by simp
qed

text \<open>
  C27: a Windows output stream is a faithful \<open>AsyncRead\<close> for \<open>consume_output\<close>. Whatever the
  interleaving of the reading thread, the polls and the sends of frames: no read reports more
  bytes than fit, \<open>consume_output\<close> does not panic on it, and the bytes of the frames it has sent
  are a prefix of what the thread took from the pipe.
\<close>

theorem win_stream_reads_the_pipe:
  assumes reader: "WinStream_read_handle hr_fmt res = Some (rpc, rout)" and files: "list_all file_ok res"
    and polls: "WinStream_polls es = Some (s, ps)" and room: "list_all (\<lambda>e. room_of e = 1024) es"
    and chan: "fifo (pick sent_item rout) (pick taken es)"
    and consume: "consume_output k cs = Some (pc, out)" and reads: "pick done_read cs = pick read_of ps"
  shows "list_all read_within cs \<and> pc \<noteq> ConsumePanic \<and> prefix (frame_bytes out) (pipe_bytes res)"
proof -
  have "prefix (ok_bytes (pick sent_item rout)) (pipe_bytes res)"
  proof -
    have ok: "ok_bytes (pieces bss) = concat bss" for bss by (induction bss) simp_all
    from WinStream_read_handle_inv [OF reader] files
    have "\<exists>bss. prefix bss (pick file_bytes res) \<and> ok_bytes (pick sent_item rout) = concat bss"
      by (cases rpc) (auto simp: reader_inv_def ok intro: prefix_order.refl)
    then show ?thesis by (auto simp: pipe_bytes_def prefix_concat)
  qed
  moreover from chan have "prefix (ok_bytes (pick taken es)) (ok_bytes (pick sent_item rout))"
    by (auto simp: fifo_def prefix_def)
  moreover note win_source.consumed_prefix [OF polls room consume reads]
  ultimately have "pc \<noteq> ConsumePanic \<and> prefix (frame_bytes out) (pipe_bytes res)"
    by (meson prefix_order.trans)
  with win_source.reads_within [OF polls room] show ?thesis
    by (simp add: within_reads reads [symmetric])
qed

definition sample_polls :: "poll_event list" where
  "sample_polls = [Polled (Some TryEmpty) 1024, Polled (Some (TryOk (Inr [104, 105]))) 1024]"

lemma sample_polls_run:
  "WinStream_polls sample_polls = Some (\<lparr>ws_buffer = [104, 105], ws_pos = 2\<rparr>, [Pending, ReadyOk [104, 105]])"
  by (simp add: WinStream_polls_def sample_polls_def poll_step.simps WinStream_poll_read_def
        WinStream_start_def copy_out_def)

lemma win_stream_reads_the_pipe_witness:
  "prefix (frame_bytes [Inr (Frame_new Stdout [104, 105])]) (pipe_bytes sample_pipe)"
proof -
  let ?cs = "[ReadDone (Inr ([104, 105] @ replicate 1022 0, 2)), SendDone True]"
  have "list_all (\<lambda>e. room_of e = 1024) sample_polls"
    and "fifo (pick sent_item [Sent (Inr [104, 105]), Woke, Sent (Inr []), Woke]) (pick taken sample_polls)"
    by (simp_all add: sample_polls_def fifo_def)
  moreover have "consume_output Stdout ?cs = Some (Reading, [Inr (Frame_new Stdout [104, 105])])"
    by (simp add: consume_output_def)
  moreover have "pick done_read ?cs = pick read_of [Pending, ReadyOk [104, 105]]" by simp
  ultimately show ?thesis
    using win_stream_reads_the_pipe [OF sample_pipe_run sample_pipe_ok sample_polls_run] by blast
qed

text \<open>A poll that reports the end of the file, and what the thread has sent when it does.\<close>

lemma eof_poll:
  assumes step: "poll_step s1 e = Some (s, [ReadyOk []])" and pos: "ws_pos s1 \<le> length (ws_buffer s1)"
    and room: "0 < room_of e"
  shows "length (ws_buffer s) \<le> ws_pos s
      \<and> (e = Polled (Some TryDisconnected) (room_of e) \<or> pick taken (es @ [e]) = pick taken es @ [Inr []])"
  using step
proof (cases rule: poll_step_cases)
  case (copied room p0)
  with copy_out_facts(4) [OF copied(3) pos] assms(3) show ?thesis by auto
next
  case (fetched bs room p0)
  with copy_out_facts(1,4) [OF fetched(3)] assms(3) have "min (length bs) room = 0" "0 < room" by auto
  then have "bs = []" by (cases bs) simp_all
  with fetched show ?thesis by (auto simp: copy_out_def)
qed auto

lemma eof_reader:
  assumes reader: "WinStream_read_handle hr_fmt res = Some (rpc, rout)" and sends: "RdSent False \<notin> set res"
    and no_err: "\<forall>err. Inl err \<notin> set (pick sent_item rout)"
  shows "rpc = RdDone \<Longrightarrow> ok_bytes (pick sent_item rout) = pipe_bytes res"
    and "fifo (pick sent_item rout) (xs @ [Inr []]) \<Longrightarrow> list_all file_ok res \<Longrightarrow>
      ok_bytes (xs @ [Inr []]) = pipe_bytes res"
proof -
  note inv = WinStream_read_handle_inv [OF reader]
  show "ok_bytes (pick sent_item rout) = pipe_bytes res" if "rpc = RdDone"
    using inv sends no_err that by (auto simp: reader_inv_def ok_bytes_pieces pipe_bytes_def)
  assume chan: "fifo (pick sent_item rout) (xs @ [Inr []])" and files: "list_all file_ok res"
  then have "Inr [] \<in> set (pick sent_item rout)" by (auto simp: fifo_def dest: set_mono_prefix)
  with inv sends no_err files
  obtain bss where "[] \<notin> set bss" and bytes: "pick file_bytes res = bss @ [[]]"
    and sent: "pick sent_item rout = pieces bss @ [Inr []]"
    by (cases rpc) (auto simp: reader_inv_def pieces_def)
  then have "Inr [] \<notin> set (pieces bss)" by (auto simp: pieces_def)
  with chan sent have "xs @ [Inr []] = pieces bss @ [Inr []]"
    by (auto simp: fifo_def prefix_snoc dest: set_mono_prefix)
  with bytes show "ok_bytes (xs @ [Inr []]) = pipe_bytes res" by (simp add: ok_bytes_pieces pipe_bytes_def)
qed

text \<open>
  C26: when a poll of a Windows output stream reports the end of the file, every byte that the
  thread took from the pipe has been delivered, unless the thread reported an error.
\<close>

theorem win_stream_eof_is_complete:
  assumes reader: "WinStream_read_handle hr_fmt res = Some (rpc, rout)" and sends: "RdSent False \<notin> set res"
    and no_err: "\<forall>err. Inl err \<notin> set (pick sent_item rout)" and files: "list_all file_ok res"
    and polls: "WinStream_polls (es @ [e]) = Some (s, ps @ [ReadyOk []])" and room: "0 < room_of e"
    and chan: "fifo (pick sent_item rout) (pick taken (es @ [e]))"
    and closed: "e = Polled (Some TryDisconnected) (room_of e) \<longrightarrow>
      rpc = RdDone \<and> pick taken (es @ [e]) = pick sent_item rout"
  shows "delivered ps = pipe_bytes res"
proof -
  from polls obtain s1 ps1 ps2 where before: "run poll_step WinStream_start es = Some (s1, ps1)"
    and last: "poll_step s1 e = Some (s, ps2)" and split: "ps @ [ReadyOk []] = ps1 @ ps2"
    unfolding WinStream_polls_def by (rule run_snocE)
  from last obtain p where p: "ps2 = [p]" by (cases rule: poll_step_cases) auto
  with split have "p = ReadyOk []" by simp
  with last p have end_step: "poll_step s1 e = Some (s, [ReadyOk []])" by simp
  from win_poll.run_inv [OF before] have "ws_pos s1 \<le> length (ws_buffer s1)" by (simp add: poll_inv_def)
  note step = eof_poll [OF end_step this room]
  have "ok_bytes (pick taken (es @ [e])) = pipe_bytes res"
  proof (cases "e = Polled (Some TryDisconnected) (room_of e)")
    case True
    with closed eof_reader(1) [OF reader sends no_err] show ?thesis by simp
  next
    case False
    with step have "pick taken (es @ [e]) = pick taken es @ [Inr []]" by blast
    with chan eof_reader(2) [OF reader sends no_err _ files] show ?thesis by simp
  qed
  with win_poll.run_inv [OF polls [unfolded WinStream_polls_def]] step show ?thesis
    by (simp add: poll_inv_def)
qed

lemma win_stream_eof_is_complete_witness: "delivered [Pending, ReadyOk [104, 105]] = pipe_bytes sample_pipe"
proof (rule win_stream_eof_is_complete [OF sample_pipe_run, where es = sample_polls
    and e = "Polled (Some (TryOk (Inr []))) 1024" and s = "\<lparr>ws_buffer = [], ws_pos = 0\<rparr>"])
  show "WinStream_polls (sample_polls @ [Polled (Some (TryOk (Inr []))) 1024])
      = Some (\<lparr>ws_buffer = [], ws_pos = 0\<rparr>, [Pending, ReadyOk [104, 105]] @ [ReadyOk []])"
    by (simp add: WinStream_polls_def sample_polls_def poll_step.simps WinStream_poll_read_def
          WinStream_start_def copy_out_def)
qed (simp_all add: sample_pipe_def sample_polls_def fifo_def)

end
