(* ===== verification/WinHandle.thy ===== *)
theory WinHandle
  imports Spawn
begin

text \<open>
  \<open>src/src/proc/spawn/win.rs\<close>, first part: owned handles, the pipes of a child, the command
  line and \<open>Child::spawn\<close>. The state is the list of handles that are open in the server
  process. The calls of Windows are parameters, gathered in a record \<open>win_os\<close>; \<open>os_ok\<close> is
  their documented contract. An \<open>OsString\<close> is its sequence of 16-bit units.
\<close>

section \<open>The operating system\<close>

type_synonym raw_handle = "64 word"

record process_information =
  pi_process :: raw_handle
  pi_thread :: raw_handle
  pi_pid :: u32
  pi_tid :: u32

text \<open>
  The calls of the \<open>windows\<close> crate, as functions of the handles that are open.
  \<open>default_handle\<close> and \<open>handle_invalid\<close> are \<open>HANDLE::default\<close> and \<open>HANDLE::is_invalid\<close>;
  \<open>close_handle\<close> answers what is open afterwards; \<open>create_process\<close> gets the command line and
  the handles for the two outputs.
\<close>

record win_os =
  default_handle :: raw_handle
  handle_invalid :: "raw_handle \<Rightarrow> bool"
  close_handle :: "raw_handle list \<Rightarrow> raw_handle \<Rightarrow> hresult + raw_handle list"
  create_pipe :: "raw_handle list \<Rightarrow> hresult + (raw_handle \<times> raw_handle)"
  set_inherit :: "raw_handle \<Rightarrow> hresult + unit"
  create_process :: "raw_handle list \<Rightarrow> u16 list \<Rightarrow> raw_handle \<Rightarrow> raw_handle \<Rightarrow> hresult + process_information"

text \<open>
  The documented contract: the default handle is invalid; closing an open handle succeeds and
  closes that one; new handles are valid, different and not open already.
\<close>

definition fresh_pair :: "win_os \<Rightarrow> raw_handle list \<Rightarrow> raw_handle \<Rightarrow> raw_handle \<Rightarrow> bool" where
  "fresh_pair os opened a b \<longleftrightarrow>
     \<not> handle_invalid os a \<and> \<not> handle_invalid os b \<and> a \<noteq> b \<and> a \<notin> set opened \<and> b \<notin> set opened"

definition os_ok :: "win_os \<Rightarrow> bool" where
  "os_ok os \<longleftrightarrow>
     handle_invalid os (default_handle os)
     \<and> (\<forall>opened h. distinct opened \<longrightarrow> h \<in> set opened \<longrightarrow>
          (\<exists>o'. close_handle os opened h = Inr o' \<and> distinct o' \<and> set o' = set opened - {h}))
     \<and> (\<forall>opened rx tx. create_pipe os opened = Inr (rx, tx) \<longrightarrow> fresh_pair os opened rx tx)
     \<and> (\<forall>opened cmd out err pi. create_process os opened cmd out err = Inr pi \<longrightarrow>
          fresh_pair os opened (pi_process pi) (pi_thread pi) \<and> 0 < pi_pid pi \<and> 0 < pi_tid pi)"

section \<open>Handles\<close>

datatype handle_kind = ProcessH | ThreadH | PipeRx pipe_kind | PipeTx pipe_kind

record handle =
  h_owned :: bool
  h_kind :: handle_kind
  h_inner :: raw_handle

definition Handle_owned :: "raw_handle \<Rightarrow> handle_kind \<Rightarrow> handle" where
  "Handle_owned inner kind = \<lparr>h_owned = True, h_kind = kind, h_inner = inner\<rparr>"

definition Handle_clone :: "handle \<Rightarrow> handle" where
  "Handle_clone h = \<lparr>h_owned = False, h_kind = h_kind h, h_inner = h_inner h\<rparr>"

definition Handle_close :: "win_os \<Rightarrow> handle \<Rightarrow> raw_handle list \<Rightarrow> raw_handle list \<times> unit rust" where
  "Handle_close os h opened =
     (if \<not> h_owned h then (opened, Ret ())
      else if \<not> handle_invalid os (h_inner h) then
        (case close_handle os opened (h_inner h) of
           Inr opened \<Rightarrow> (opened, Ret ())
         | Inl e \<Rightarrow> (opened, Panic ''close handle failed''))
      else (opened, Ret ()))"

text \<open>\<open>drop\<close> of several values, one after the other.\<close>

primrec drop_all :: "win_os \<Rightarrow> handle list \<Rightarrow> raw_handle list \<Rightarrow> raw_handle list \<times> unit rust" where
  "drop_all os [] opened = (opened, Ret ())"
| "drop_all os (h # hs) opened =
     (case Handle_close os h opened of
        (opened, Panic msg) \<Rightarrow> (opened, Panic msg)
      | (opened, Ret u) \<Rightarrow> drop_all os hs opened)"

text \<open>Returning \<open>x\<close> from a scope whose locals \<open>hs\<close> are dropped, and unwinding through it.\<close>

definition leave :: "win_os \<Rightarrow> handle list \<Rightarrow> 'a \<Rightarrow> raw_handle list \<Rightarrow> raw_handle list \<times> 'a rust" where
  "leave os hs x opened =
     (case drop_all os hs opened of
        (opened, Panic msg) \<Rightarrow> (opened, Panic msg)
      | (opened, Ret u) \<Rightarrow> (opened, Ret x))"

definition unwind :: "win_os \<Rightarrow> handle list \<Rightarrow> string \<Rightarrow> raw_handle list \<Rightarrow> raw_handle list \<times> 'a rust" where
  "unwind os hs msg opened = (fst (drop_all os hs opened), Panic msg)"

section \<open>Pipes\<close>

definition PipeKind_create_handles ::
  "win_os \<Rightarrow> pipe_kind \<Rightarrow> raw_handle list \<Rightarrow> raw_handle list \<times> (win_error + (handle \<times> handle)) rust" where
  "PipeKind_create_handles os kind opened =
     (let rx = Handle_owned (default_handle os) (PipeRx kind);
          tx = Handle_owned (default_handle os) (PipeTx kind) in
      case create_pipe os opened of
        Inl e \<Rightarrow> leave os [tx, rx] (Inl (CreateReadPipe e)) opened
      | Inr (r, t) \<Rightarrow>
          let rx = rx\<lparr>h_inner := r\<rparr>; tx = tx\<lparr>h_inner := t\<rparr>; opened = r # t # opened in
          (case set_inherit os t of
             Inl e \<Rightarrow> leave os [tx, rx] (Inl (CreateReadPipe e)) opened
           | Inr _ \<Rightarrow> (opened, Ret (Inr (tx, rx)))))"

section \<open>The command line\<close>

text \<open>
  The \<open>flat_map\<close> over the enumerated items: a space before every item but the first, no
  quoting, and a final zero.
\<close>

primrec join_from :: "nat \<Rightarrow> u16 list list \<Rightarrow> u16 list" where
  "join_from i [] = []"
| "join_from i (t # ts) = (if i > 0 then [32] else []) @ t @ join_from (Suc i) ts"

definition WinArgs_new :: "u16 list list \<Rightarrow> u16 list" where
  "WinArgs_new items = join_from 0 items @ [0]"

section \<open>Spawning\<close>

record process_info =
  p_process :: handle
  p_thread :: handle
  p_pid :: u32
  p_tid :: u32

definition ProcessInfo_from :: "process_information \<Rightarrow> process_info" where
  "ProcessInfo_from info =
     \<lparr>p_process = Handle_owned (pi_process info) ProcessH,
      p_thread = Handle_owned (pi_thread info) ThreadH,
      p_pid = pi_pid info, p_tid = pi_tid info\<rparr>"

record win_child =
  proc_info :: process_info
  wc_stdout :: "handle option"
  wc_stderr :: "handle option"

definition WinChild_spawn ::
  "win_os \<Rightarrow> u16 list opts \<Rightarrow> raw_handle list \<Rightarrow> raw_handle list \<times> (win_error + win_child) rust" where
  "WinChild_spawn os opts opened =
     (case PipeKind_create_handles os PipeStdout opened of
        (opened, Panic msg) \<Rightarrow> (opened, Panic msg)
      | (opened, Ret (Inl e)) \<Rightarrow> (opened, Ret (Inl e))
      | (opened, Ret (Inr (stdout_tx, stdout_rx))) \<Rightarrow>
     (case PipeKind_create_handles os PipeStderr opened of
        (opened, Panic msg) \<Rightarrow> unwind os [stdout_rx, stdout_tx] msg opened
      | (opened, Ret (Inl e)) \<Rightarrow> leave os [stdout_rx, stdout_tx] (Inl e) opened
      | (opened, Ret (Inr (stderr_tx, stderr_rx))) \<Rightarrow>
     (let cmd_line = WinArgs_new (JobSpec_exe_and_args (opts_spec opts));
          locals = [stderr_rx, stderr_tx, stdout_rx, stdout_tx] in
      case create_process os opened cmd_line (h_inner stdout_tx) (h_inner stderr_tx) of
        Inl e \<Rightarrow> leave os locals (Inl (CreateProcessFailed e)) opened
      | Inr info \<Rightarrow>
          let opened = pi_process info # pi_thread info # opened in
          if handle_invalid os (pi_process info) then
            unwind os locals ''assertion failed: !proc_info.hProcess.is_invalid()'' opened
          else if handle_invalid os (pi_thread info) then
            unwind os locals ''assertion failed: !proc_info.hThread.is_invalid()'' opened
          else if \<not> 0 < pi_pid info then
            unwind os locals ''assertion failed: proc_info.dwProcessId > 0'' opened
          else if \<not> 0 < pi_tid info then
            unwind os locals ''assertion failed: proc_info.dwThreadId > 0'' opened
          else leave os [stdout_tx, stderr_tx]
            (Inr \<lparr>proc_info = ProcessInfo_from info, wc_stdout = Some stdout_rx,
                  wc_stderr = Some stderr_rx\<rparr>) opened)))"

text \<open>Dropping a child drops its fields in order.\<close>

definition WinChild_handles :: "win_child \<Rightarrow> handle list" where
  "WinChild_handles c =
     [p_process (proc_info c), p_thread (proc_info c)]
     @ (case wc_stdout c of None \<Rightarrow> [] | Some h \<Rightarrow> [h])
     @ (case wc_stderr c of None \<Rightarrow> [] | Some h \<Rightarrow> [h])"

definition WinChild_drop :: "win_os \<Rightarrow> win_child \<Rightarrow> raw_handle list \<Rightarrow> raw_handle list \<times> unit rust" where
  "WinChild_drop os c opened = drop_all os (WinChild_handles c) opened"

section \<open>Closing\<close>

text \<open>
  Dropping owned handles that are open, valid and different closes exactly these.
\<close>

definition owns_all :: "win_os \<Rightarrow> handle list \<Rightarrow> bool" where
  "owns_all os hs \<longleftrightarrow> list_all (\<lambda>h. h_owned h \<and> \<not> handle_invalid os (h_inner h)) hs"

lemma owns_all_simps [simp]:
  "owns_all os []"
  "owns_all os (h # hs) \<longleftrightarrow> h_owned h \<and> \<not> handle_invalid os (h_inner h) \<and> owns_all os hs"
  by (simp_all add: owns_all_def)

lemma Handle_owned_sel [simp]:
  "h_owned (Handle_owned r k)" "h_inner (Handle_owned r k) = r" "h_kind (Handle_owned r k) = k"
  "(Handle_owned r k)\<lparr>h_inner := r'\<rparr> = Handle_owned r' k"
  by (simp_all add: Handle_owned_def)

lemma clone_never_closes: "Handle_close os (Handle_clone h) opened = (opened, Ret ())"
  by (simp add: Handle_close_def Handle_clone_def)

lemma os_closes:
  assumes "os_ok os" and "distinct opened" and "h \<in> set opened"
  obtains o1 where "close_handle os opened h = Inr o1" and "distinct o1" and "set o1 = set opened - {h}"
  using assms unfolding os_ok_def by blast

lemma drop_all_closes:
  "os_ok os \<Longrightarrow> owns_all os hs \<Longrightarrow> distinct (map h_inner hs) \<Longrightarrow> set (map h_inner hs) \<subseteq> set opened \<Longrightarrow>
   distinct opened \<Longrightarrow>
   \<exists>opened'. drop_all os hs opened = (opened', Ret ()) \<and> distinct opened'
     \<and> set opened' = set opened - set (map h_inner hs)"
proof (induction hs arbitrary: opened)
  case Nil
  then show ?case by simp
next
  case (Cons h hs)
  from Cons.prems(4) have "h_inner h \<in> set opened" by simp
  from os_closes [OF Cons.prems(1,5) this] obtain o1 where "close_handle os opened (h_inner h) = Inr o1"
    and "distinct o1" and o1: "set o1 = set opened - {h_inner h}" .
  moreover from this(1) Cons.prems have "Handle_close os h opened = (o1, Ret ())"
    by (simp add: Handle_close_def)
  moreover from Cons.prems(3,4) o1 have "set (map h_inner hs) \<subseteq> set o1"
    by (simp add: subset_Diff_insert)
  with Cons.IH [of o1] Cons.prems(1-3) \<open>distinct o1\<close> obtain opened'
    where "drop_all os hs o1 = (opened', Ret ())" and "distinct opened'"
      and "set opened' = set o1 - set (map h_inner hs)" by auto
  ultimately show ?case by auto
qed

lemma leave_closes:
  assumes "os_ok os" and "owns_all os hs" and "distinct (map h_inner hs)" and "set (map h_inner hs) \<subseteq> set opened"
    and "distinct opened"
  shows "\<exists>opened'. leave os hs x opened = (opened', Ret x) \<and> distinct opened'
    \<and> set opened' = set opened - set (map h_inner hs)"
  using drop_all_closes [OF assms] by (auto simp: leave_def)

text \<open>A pipe, or nothing, is left open.\<close>

lemma create_handles_cases:
  assumes os: "os_ok os" and d: "distinct opened"
  obtains
    e opened' where "PipeKind_create_handles os kind opened = (opened', Ret (Inl e))"
      "distinct opened'" "set opened' = set opened"
  | r t where "PipeKind_create_handles os kind opened =
        (r # t # opened, Ret (Inr (Handle_owned t (PipeTx kind), Handle_owned r (PipeRx kind))))"
      "fresh_pair os opened r t"
proof (cases "create_pipe os opened")
  case (Inl e)
  then have "PipeKind_create_handles os kind opened = (opened, Ret (Inl (CreateReadPipe e)))"
    using os by (simp add: PipeKind_create_handles_def leave_def Handle_close_def os_ok_def)
  with d show thesis using that(1) by blast
next
  case (Inr rt)
  then obtain r t where rt: "create_pipe os opened = Inr (r, t)" by (cases rt) auto
  with os have fresh: "fresh_pair os opened r t" by (simp add: os_ok_def)
  show thesis
  proof (cases "set_inherit os t")
    case (Inl e)
    let ?hs = "[Handle_owned t (PipeTx kind), Handle_owned r (PipeRx kind)]"
    from fresh d have "\<exists>opened'. leave os ?hs (Inl (CreateReadPipe e) :: win_error + (handle \<times> handle)) (r # t # opened) = (opened', Ret (Inl (CreateReadPipe e)))
        \<and> distinct opened' \<and> set opened' = set (r # t # opened) - set (map h_inner ?hs)"
      by (intro leave_closes os) (auto simp: fresh_pair_def)
    then obtain opened' where left: "leave os ?hs (Inl (CreateReadPipe e) :: win_error + (handle \<times> handle)) (r # t # opened) = (opened', Ret (Inl (CreateReadPipe e)))"
      and "distinct opened'" and "set opened' = set (r # t # opened) - set (map h_inner ?hs)" by blast
    moreover from this(3) fresh have "set opened' = set opened" by (auto simp: fresh_pair_def)
    moreover from rt Inl left
    have "PipeKind_create_handles os kind opened = (opened', Ret (Inl (CreateReadPipe e)))"
      by (simp add: PipeKind_create_handles_def)
    ultimately show thesis using that(1) by blast
  next
    case (Inr u)
    with rt fresh show thesis by (intro that(2)) (simp_all add: PipeKind_create_handles_def)
  qed
qed

section \<open>What spawning leaves open\<close>

definition child_of :: "process_information \<Rightarrow> raw_handle \<Rightarrow> raw_handle \<Rightarrow> win_child" where
  "child_of info r1 r2 =
     \<lparr>proc_info = ProcessInfo_from info, wc_stdout = Some (Handle_owned r1 (PipeRx PipeStdout)),
      wc_stderr = Some (Handle_owned r2 (PipeRx PipeStderr))\<rparr>"

lemma child_of_handles:
  "map h_inner (WinChild_handles (child_of info r1 r2)) = [pi_process info, pi_thread info, r1, r2]"
  "owns_all os (WinChild_handles (child_of info r1 r2)) \<longleftrightarrow>
     \<not> handle_invalid os (pi_process info) \<and> \<not> handle_invalid os (pi_thread info) \<and> \<not> handle_invalid os r1 \<and> \<not> handle_invalid os r2"
  by (simp_all add: child_of_def WinChild_handles_def ProcessInfo_from_def)

definition spawn_closed where
  "spawn_closed os opts opened opened' =
     (\<exists>e. WinChild_spawn os opts opened = (opened', Ret (Inl e)) \<and> distinct opened' \<and> set opened' = set opened)"

definition spawn_opened where
  "spawn_opened os opts opened opened' c =
     (WinChild_spawn os opts opened = (opened', Ret (Inr c)) \<and> distinct opened'
      \<and> owns_all os (WinChild_handles c) \<and> distinct (map h_inner (WinChild_handles c))
      \<and> set (map h_inner (WinChild_handles c)) \<inter> set opened = {}
      \<and> set opened' = set opened \<union> set (map h_inner (WinChild_handles c)))"

text \<open>With both pipes open.\<close>

lemma spawn_with_pipes:
  assumes os: "os_ok os" and d: "distinct opened"
    and one: "PipeKind_create_handles os PipeStdout opened =
        (r1 # t1 # opened, Ret (Inr (Handle_owned t1 (PipeTx PipeStdout), Handle_owned r1 (PipeRx PipeStdout))))"
    and f1: "fresh_pair os opened r1 t1"
    and two: "PipeKind_create_handles os PipeStderr (r1 # t1 # opened) =
        (r2 # t2 # r1 # t1 # opened,
         Ret (Inr (Handle_owned t2 (PipeTx PipeStderr), Handle_owned r2 (PipeRx PipeStderr))))"
    and f2: "fresh_pair os (r1 # t1 # opened) r2 t2"
  shows "\<exists>opened'. spawn_closed os opts opened opened' \<or> (\<exists>c. spawn_opened os opts opened opened' c)"
proof -
  let ?o = "r2 # t2 # r1 # t1 # opened"
  let ?cmd = "WinArgs_new (JobSpec_exe_and_args (opts_spec opts))"
  let ?locals = "[Handle_owned r2 (PipeRx PipeStderr), Handle_owned t2 (PipeTx PipeStderr),
      Handle_owned r1 (PipeRx PipeStdout), Handle_owned t1 (PipeTx PipeStdout)]"
  show ?thesis
  proof (cases "create_process os ?o ?cmd t1 t2")
    case (Inl e)
    have "\<exists>opened'. leave os ?locals (Inl (CreateProcessFailed e) :: win_error + win_child) ?o
        = (opened', Ret (Inl (CreateProcessFailed e))) \<and> distinct opened'
        \<and> set opened' = set ?o - set (map h_inner ?locals)"
      using f1 f2 d by (intro leave_closes os) (auto simp: fresh_pair_def)
    then obtain opened' where "leave os ?locals (Inl (CreateProcessFailed e) :: win_error + win_child) ?o
        = (opened', Ret (Inl (CreateProcessFailed e)))" and "distinct opened'"
      and "set opened' = set ?o - set (map h_inner ?locals)" by blast
    moreover from this(3) f1 f2 have "set opened' = set opened" by (auto simp: fresh_pair_def)
    ultimately have "spawn_closed os opts opened opened'"
      using Inl by (simp add: spawn_closed_def WinChild_spawn_def one two Let_def)
    then show ?thesis by blast
  next
    case (Inr info)
    with os have f3: "fresh_pair os ?o (pi_process info) (pi_thread info)"
      and ids: "0 < pi_pid info" "0 < pi_tid info" by (auto simp: os_ok_def)
    let ?o3 = "pi_process info # pi_thread info # ?o" and ?c = "child_of info r1 r2"
    let ?tx = "[Handle_owned t1 (PipeTx PipeStdout), Handle_owned t2 (PipeTx PipeStderr)]"
    have "\<exists>opened'. leave os ?tx (Inr ?c :: win_error + win_child) ?o3 = (opened', Ret (Inr ?c)) \<and> distinct opened'
        \<and> set opened' = set ?o3 - set (map h_inner ?tx)"
      using f1 f2 f3 d by (intro leave_closes os) (auto simp: fresh_pair_def)
    then obtain opened' where left: "leave os ?tx (Inr ?c :: win_error + win_child) ?o3 = (opened', Ret (Inr ?c))"
      and d': "distinct opened'" and "set opened' = set ?o3 - set (map h_inner ?tx)" by blast
    moreover from this(3) f1 f2 f3
    have "set opened' = set opened \<union> set (map h_inner (WinChild_handles ?c))"
      unfolding child_of_handles by (auto simp: fresh_pair_def)
    moreover from f1 f2 f3 have "owns_all os (WinChild_handles ?c) \<and> distinct (map h_inner (WinChild_handles ?c))
        \<and> set (map h_inner (WinChild_handles ?c)) \<inter> set opened = {}"
      unfolding child_of_handles by (auto simp: fresh_pair_def)
    moreover have "WinChild_spawn os opts opened = (opened', Ret (Inr ?c))"
      using Inr left f3 ids
      by (simp add: WinChild_spawn_def one two Let_def fresh_pair_def child_of_def)
    ultimately have "spawn_opened os opts opened opened' ?c"
      using d' by (simp add: spawn_opened_def)
    then show ?thesis by blast
  qed
qed

lemma spawn_cases:
  assumes os: "os_ok os" and d: "distinct opened"
  shows "\<exists>opened'. spawn_closed os opts opened opened' \<or> (\<exists>c. spawn_opened os opts opened opened' c)"
proof (rule create_handles_cases [OF os d, of PipeStdout])
  fix e opened' assume "PipeKind_create_handles os PipeStdout opened = (opened', Ret (Inl e))"
    and "distinct opened'" and "set opened' = set opened"
  then have "spawn_closed os opts opened opened'" by (simp add: spawn_closed_def WinChild_spawn_def)
  then show ?thesis by blast
next
  fix r1 t1
  let ?o = "r1 # t1 # opened"
  assume one: "PipeKind_create_handles os PipeStdout opened =
      (?o, Ret (Inr (Handle_owned t1 (PipeTx PipeStdout), Handle_owned r1 (PipeRx PipeStdout))))"
    and f1: "fresh_pair os opened r1 t1"
  with d have d1: "distinct ?o" by (auto simp: fresh_pair_def)
  show ?thesis
  proof (rule create_handles_cases [OF os d1, of PipeStderr])
    fix e o2 assume two: "PipeKind_create_handles os PipeStderr ?o = (o2, Ret (Inl e))"
      and d2: "distinct o2" and s2: "set o2 = set ?o"
    let ?hs = "[Handle_owned r1 (PipeRx PipeStdout), Handle_owned t1 (PipeTx PipeStdout)]"
    have "\<exists>opened'. leave os ?hs (Inl e :: win_error + win_child) o2 = (opened', Ret (Inl e)) \<and> distinct opened'
        \<and> set opened' = set o2 - set (map h_inner ?hs)"
      using f1 s2 d2 by (intro leave_closes os) (auto simp: fresh_pair_def)
    then obtain opened' where "leave os ?hs (Inl e :: win_error + win_child) o2 = (opened', Ret (Inl e))"
      and "distinct opened'" and "set opened' = set o2 - set (map h_inner ?hs)" by blast
    moreover from this(3) s2 f1 have "set opened' = set opened" by (auto simp: fresh_pair_def)
    ultimately have "spawn_closed os opts opened opened'"
      by (simp add: spawn_closed_def WinChild_spawn_def one two)
    then show ?thesis by blast
  next
    fix r2 t2
    assume "PipeKind_create_handles os PipeStderr ?o =
        (r2 # t2 # ?o, Ret (Inr (Handle_owned t2 (PipeTx PipeStderr), Handle_owned r2 (PipeRx PipeStderr))))"
      and "fresh_pair os ?o r2 t2"
    then show ?thesis by (rule spawn_with_pipes [OF os d one f1])
  qed
qed

section \<open>Reading a command line back\<close>

text \<open>The parts of a list between its separators.\<close>

fun split_on :: "'a \<Rightarrow> 'a list \<Rightarrow> 'a list list" where
  "split_on s [] = [[]]"
| "split_on s (c # cs) =
     (if c = s then [] # split_on s cs
      else (case split_on s cs of [] \<Rightarrow> [[c]] | p # ps \<Rightarrow> (c # p) # ps))"

lemma split_on_none: "s \<notin> set t \<Longrightarrow> split_on s t = [t]"
  by (induction t) auto

lemma split_on_sep: "s \<notin> set t \<Longrightarrow> split_on s (t @ s # r) = t # split_on s r"
  by (induction t) auto

lemma join_from_pos: "0 < i \<Longrightarrow> join_from i ts = concat (map (\<lambda>t. 32 # t) ts)"
  by (induction ts arbitrary: i) auto

lemma join_from_0: "join_from 0 (t # ts) = t @ concat (map (\<lambda>t. 32 # t) ts)"
  by (simp add: join_from_pos)

lemma split_join:
  "s \<notin> set t \<Longrightarrow> (\<forall>u \<in> set ts. s \<notin> set u) \<Longrightarrow>
   split_on s (t @ concat (map (\<lambda>u. s # u) ts)) = t # ts"
  by (induction ts arbitrary: t) (simp_all add: split_on_none split_on_sep)

lemma split_on_not_Nil: "split_on s l \<noteq> []"
  by (induction l) (auto split: list.splits)

lemma split_on_no_sep: "t \<in> set (split_on s l) \<Longrightarrow> s \<notin> set t"
  by (induction l arbitrary: t) (auto split: if_splits list.splits)

lemma split_on_join: "split_on s l = p # ps \<Longrightarrow> l = p @ concat (map (\<lambda>u. s # u) ps)"
proof (induction l arbitrary: p ps)
  case Nil
  then show ?case by simp
next
  case (Cons c cs)
  obtain q qs where q: "split_on s cs = q # qs" by (cases "split_on s cs") (simp_all add: split_on_not_Nil)
  from Cons.prems [unfolded split_on.simps q list.case] show ?case
    unfolding Cons.IH [OF q] by (auto split: if_splits)
qed

lemma takeWhile_zero: "0 \<notin> set xs \<Longrightarrow> takeWhile (\<lambda>c. c \<noteq> 0) (xs @ [0]) = xs"
  by (induction xs) auto

section \<open>Properties\<close>

text \<open>
  C28: spawning on Windows leaks no handle and closes none twice, on every path. When it fails,
  exactly the handles open before are open; when it succeeds, exactly the four handles of the
  child are open in addition, the write ends of both pipes being closed; and dropping the
  child closes these four. No assertion and no \<open>CloseHandle\<close> fails, provided that Windows
  hands out fresh handles.
\<close>

theorem win_spawn_leaks_no_handle:
  assumes os: "os_ok os" and d: "distinct opened"
  shows "\<exists>opened'. (\<exists>e. WinChild_spawn os opts opened = (opened', Ret (Inl e)) \<and> set opened' = set opened)
    \<or> (\<exists>c opened''. WinChild_spawn os opts opened = (opened', Ret (Inr c))
         \<and> set opened' = set opened \<union> set (map h_inner (WinChild_handles c))
         \<and> set opened \<inter> set (map h_inner (WinChild_handles c)) = {}
         \<and> WinChild_drop os c opened' = (opened'', Ret ()) \<and> set opened'' = set opened)"
proof -
  from spawn_cases [OF os d] obtain opened'
    where "spawn_closed os opts opened opened' \<or> (\<exists>c. spawn_opened os opts opened opened' c)" by blast
  then show ?thesis
  proof (elim disjE exE)
    assume "spawn_closed os opts opened opened'"
    then show ?thesis by (auto simp: spawn_closed_def)
  next
    fix c assume c: "spawn_opened os opts opened opened' c"
    then have "owns_all os (WinChild_handles c)" and "distinct (map h_inner (WinChild_handles c))"
      and "set (map h_inner (WinChild_handles c)) \<subseteq> set opened'" and "distinct opened'"
      by (auto simp: spawn_opened_def)
    from drop_all_closes [OF os this] obtain opened'' where "WinChild_drop os c opened' = (opened'', Ret ())"
      and "set opened'' = set opened' - set (map h_inner (WinChild_handles c))"
      by (auto simp: WinChild_drop_def)
    with c show ?thesis unfolding spawn_opened_def by blast
  qed
qed

text \<open>A system that hands out the numbers after the highest one in use, and knows one program.\<close>

definition sample_os :: win_os where
  "sample_os =
     \<lparr>default_handle = 0, handle_invalid = (\<lambda>h. h = 0 \<or> h = - 1),
      close_handle = (\<lambda>opened h. if h \<in> set opened then Inr (remove1 h opened) else Inl 6),
      create_pipe = (\<lambda>opened. if opened = [] then Inr (1, 2) else if opened = [1, 2] then Inr (3, 4) else Inl 5),
      set_inherit = (\<lambda>h. Inr ()),
      create_process = (\<lambda>opened cmd out err. if opened = [3, 4, 1, 2] \<and> cmd = [120, 0]
        then Inr \<lparr>pi_process = 5, pi_thread = 6, pi_pid = 77, pi_tid = 78\<rparr> else Inl 2)\<rparr>"

lemma sample_os_ok: "os_ok sample_os"
  by (simp add: os_ok_def sample_os_def fresh_pair_def)

lemma win_spawn_leaks_no_handle_witness:
  "\<exists>opened' c opened''. WinChild_spawn sample_os (Opts_new (JobSpec_new id [120])) [] = (opened', Ret (Inr c))
     \<and> WinChild_drop sample_os c opened' = (opened'', Ret ()) \<and> set opened'' = {}"
proof -
  have "\<exists>o1 c1. WinChild_spawn sample_os (Opts_new (JobSpec_new id [120])) [] = (o1, Ret (Inr c1))"
    by (simp add: WinChild_spawn_def PipeKind_create_handles_def sample_os_def Opts_new_def JobSpec_new_def
          JobSpec_exe_and_args_def WinArgs_new_def leave_def Handle_close_def Let_def)
  with win_spawn_leaks_no_handle [OF sample_os_ok, of "[]" "Opts_new (JobSpec_new id [120])"]
  show ?thesis by auto
qed

text \<open>
  C32: the command line that a Windows child gets is the program and its arguments, in order,
  separated by single spaces and ended by a zero; so what is before the first zero, split at the
  spaces, gives back the request exactly when no part contains a space or a zero, which the code
  does not check. The parts are not quoted: a part with a space gives the same command line as
  two parts.
\<close>

theorem win_command_line:
  shows "(split_on 32 (takeWhile (\<lambda>c. c \<noteq> 0) (WinArgs_new (JobSpec_exe_and_args spec)))
        = JobSpec_exe_and_args spec
      \<longleftrightarrow> list_all (\<lambda>t. 0 \<notin> set t \<and> 32 \<notin> set t) (JobSpec_exe_and_args spec))
    \<and> WinArgs_new (JobSpec_exe_and_args spec) = exe spec @ concat (map (\<lambda>t. 32 # t) (args spec)) @ [0]
    \<and> WinArgs_new (ts @ [a @ [32] @ b] @ us) = WinArgs_new (ts @ [a, b] @ us)"
proof -
  let ?parts = "JobSpec_exe_and_args spec"
  let ?line = "exe spec @ concat (map (\<lambda>t. 32 # t) (args spec))"
  have parts: "?parts = exe spec # args spec" by (simp add: JobSpec_exe_and_args_def)
  have line: "WinArgs_new ?parts = ?line @ [0]"
    by (simp add: WinArgs_new_def JobSpec_exe_and_args_def join_from_pos)
  have plain: "split_on 32 (takeWhile (\<lambda>c. c \<noteq> 0) (?line @ [0])) = ?parts"
    if "list_all (\<lambda>t. 0 \<notin> set t \<and> 32 \<notin> set t) ?parts"
  proof -
    from that have "0 \<notin> set ?line" by (auto simp: parts list_all_iff)
    then have "takeWhile (\<lambda>c. c \<noteq> 0) (?line @ [0]) = ?line" by (rule takeWhile_zero)
    then show ?thesis using that by (simp add: parts split_join list_all_iff)
  qed
  have "list_all (\<lambda>t. 0 \<notin> set t \<and> 32 \<notin> set t) ?parts"
    if split: "split_on 32 (takeWhile (\<lambda>c. c \<noteq> 0) (?line @ [0])) = ?parts"
  proof -
    from split_on_join [OF split [unfolded parts]] have "takeWhile (\<lambda>c. c \<noteq> 0) (?line @ [0]) = ?line" .
    then have "0 \<notin> set ?line" by (metis (mono_tags, lifting) set_takeWhileD)
    then have "\<forall>t \<in> set ?parts. 0 \<notin> set t" by (auto simp: parts split: if_splits)
    with split_on_no_sep [of _ 32 "takeWhile (\<lambda>c. c \<noteq> 0) (?line @ [0])"] split show ?thesis
      by (auto simp: list_all_iff)
  qed
  moreover have "join_from i (ts @ [a @ [32] @ b] @ us) = join_from i (ts @ [a, b] @ us)" for i
    by (induction ts arbitrary: i) (simp_all add: join_from_pos)
  then have "WinArgs_new (ts @ [a @ [32] @ b] @ us) = WinArgs_new (ts @ [a, b] @ us)"
    by (simp add: WinArgs_new_def)
  ultimately show ?thesis using plain unfolding line append_assoc by blast
qed

end
