(* ===== verification/WinProcess.thy ===== *)
theory WinProcess
  imports WinHandle
begin

text \<open>
  \<open>src/src/proc/spawn/win.rs\<close>, third part: the \<open>Child\<close> of Windows, with its two futures.
  \<open>WaitChild\<close> asks the operating system whether the process has ended, and leaves a thread
  behind that wakes the task when it does; \<open>KillChild\<close> has a thread of its own terminate the
  process and hand over the outcome in a rendezvous. Each future is put together with its
  threads and the task that awaits it: a task polls only after it was woken.
\<close>

section \<open>Waiting\<close>

text \<open>
  \<open>ev\<close> is what \<open>WaitForSingleObject\<close> returned, \<open>get_code\<close> what \<open>GetExitCodeProcess\<close> would
  return. The result is the value of the future (\<open>None\<close> when it is pending), and whether a
  thread was started to wait for the process.
\<close>

definition WAIT_OBJECT_0 :: "u32" where
  "WAIT_OBJECT_0 = 0"

definition WAIT_TIMEOUT :: "u32" where
  "WAIT_TIMEOUT = 258"

definition WaitChild_poll :: "u32 \<Rightarrow> hresult + u32 \<Rightarrow> (io_error + os_exit) option \<times> bool" where
  "WaitChild_poll ev get_code =
     (if ev = WAIT_OBJECT_0 then
        (case get_code of
           Inr c \<Rightarrow> (Some (Inr (OsCode c)), False)
         | Inl err \<Rightarrow> (Some (Inl (OsError err)), False))
      else (None, True))"

text \<open>
  A process with the threads that wait for it (\<open>wait_wake\<close>) and the task: \<open>WtPoll fail\<close>, the
  task polls a \<open>WaitChild\<close> (\<open>fail\<close> is an error of \<open>GetExitCodeProcess\<close>); \<open>WtExit\<close>, the process
  ends; \<open>WtThread\<close>, one of the threads returns from its infinite wait and wakes the task;
  \<open>WtOther\<close>, something else wakes it. The object of a process is signalled from its end on,
  and its handle, open as long as the \<open>Child\<close> is, keeps \<open>WaitForSingleObject\<close> from failing;
  \<open>WaitChild_poll\<close> itself takes any result, and a failed wait as one that timed out.
\<close>

record wait_sys =
  wt_exit :: "u32 option"
  wt_threads :: nat
  wt_woken :: bool

datatype wait_sys_event = WtPoll "hresult option" | WtExit u32 | WtThread | WtOther

definition wait_sys_start :: wait_sys where
  "wait_sys_start = \<lparr>wt_exit = None, wt_threads = 0, wt_woken = True\<rparr>"

fun wait_sys_step :: "wait_sys \<Rightarrow> wait_sys_event \<Rightarrow> (wait_sys \<times> (io_error + os_exit) option list) option" where
  "wait_sys_step s (WtPoll fail) =
     (if wt_woken s then
        (case WaitChild_poll (if wt_exit s = None then WAIT_TIMEOUT else WAIT_OBJECT_0)
            (case fail of Some e \<Rightarrow> Inl e | None \<Rightarrow> Inr (case wt_exit s of Some c \<Rightarrow> c | None \<Rightarrow> 0)) of
           (p, thread) \<Rightarrow>
             Some (s\<lparr>wt_woken := False, wt_threads := (if thread then Suc (wt_threads s) else wt_threads s)\<rparr>, [p]))
      else None)"
| "wait_sys_step s (WtExit c) =
     (if wt_exit s = None then Some (s\<lparr>wt_exit := Some c\<rparr>, []) else None)"
| "wait_sys_step s WtThread =
     (if wt_exit s \<noteq> None \<and> 0 < wt_threads s
      then Some (s\<lparr>wt_threads := wt_threads s - 1, wt_woken := True\<rparr>, []) else None)"
| "wait_sys_step s WtOther = Some (s\<lparr>wt_woken := True\<rparr>, [])"

fun is_poll :: "wait_sys_event \<Rightarrow> bool" where
  "is_poll (WtPoll fail) = True"
| "is_poll (WtExit c) = False"
| "is_poll WtThread = False"
| "is_poll WtOther = False"

fun exit_of :: "wait_sys_event \<Rightarrow> u32 option" where
  "exit_of (WtExit c) = Some c"
| "exit_of (WtPoll fail) = None"
| "exit_of WtThread = None"
| "exit_of WtOther = None"

definition pendings :: "(io_error + os_exit) option list \<Rightarrow> nat" where
  "pendings ps = length (filter (\<lambda>p. p = None) ps)"

definition threads_done :: "wait_sys_event list \<Rightarrow> nat" where
  "threads_done es = length (filter (\<lambda>e. e = WtThread) es)"

text \<open>
  Every pending poll has left a thread behind; a pending task will be woken; and what the
  future answers is the exit code.
\<close>

definition wait_sys_inv :: "wait_sys_event list \<Rightarrow> (io_error + os_exit) option list \<Rightarrow> wait_sys \<Rightarrow> bool" where
  "wait_sys_inv es out s \<longleftrightarrow>
     pick exit_of es = (case wt_exit s of None \<Rightarrow> [] | Some c \<Rightarrow> [c])
     \<and> wt_threads s + threads_done es = pendings out
     \<and> (wt_exit s = None \<longrightarrow> threads_done es = 0 \<and> pendings out = length (filter is_poll es))
     \<and> (out \<noteq> [] \<and> last out = None \<longrightarrow> wt_woken s \<or> 0 < wt_threads s)
     \<and> (\<forall>p \<in> set out. p = None \<or> (\<exists>c. wt_exit s = Some c \<and> p = Some (Inr (OsCode c)))
          \<or> (\<exists>e. WtPoll (Some e) \<in> set es \<and> p = Some (Inl (OsError e))))"

lemma pendings_simps [simp]:
  "pendings [] = 0" "pendings (None # ps) = Suc (pendings ps)" "pendings (Some r # ps) = pendings ps"
  "pendings (ps @ qs) = pendings ps + pendings qs"
  by (simp_all add: pendings_def)

lemma threads_done_simps [simp]:
  "threads_done [] = 0" "threads_done (es @ fs) = threads_done es + threads_done fs"
  "threads_done [WtPoll fail] = 0" "threads_done [WtExit c] = 0" "threads_done [WtThread] = 1"
  "threads_done [WtOther] = 0"
  by (simp_all add: threads_done_def)

lemma wait_sys_inv_step:
  assumes inv: "wait_sys_inv es out s" and step: "wait_sys_step s e = Some (s', out')"
  shows "wait_sys_inv (es @ [e]) (out @ out') s'"
proof (cases e)
  case (WtPoll fail)
  show ?thesis
  proof (cases "wt_exit s")
    case None
    with WtPoll step have "s' = s\<lparr>wt_woken := False, wt_threads := Suc (wt_threads s)\<rparr>" and "out' = [None]"
      by (simp_all add: WaitChild_poll_def WAIT_TIMEOUT_def WAIT_OBJECT_0_def split: if_splits)
    with WtPoll None inv show ?thesis by (simp add: wait_sys_inv_def) blast
  next
    case (Some c)
    with WtPoll step have s': "s' = s\<lparr>wt_woken := False\<rparr>"
      and out': "out' = [Some (case fail of Some e \<Rightarrow> Inl (OsError e) | None \<Rightarrow> Inr (OsCode c))]"
      by (simp_all add: WaitChild_poll_def split: if_splits option.splits)
    show ?thesis
    proof (cases fail)
      case None
      with WtPoll Some inv show ?thesis unfolding s' out' by (simp add: wait_sys_inv_def)
    next
      case (Some err)
      with WtPoll \<open>wt_exit s = Some c\<close> inv show ?thesis
        unfolding s' out' by (simp add: wait_sys_inv_def) blast
    qed
  qed
next
  case (WtExit c)
  with step have "wt_exit s = None" and "s' = s\<lparr>wt_exit := Some c\<rparr>" and "out' = []"
    by (simp_all split: if_splits)
  with WtExit inv show ?thesis by (simp add: wait_sys_inv_def) blast
next
  case WtThread
  with step have "wt_exit s \<noteq> None" "0 < wt_threads s" and "out' = []"
    and "s' = s\<lparr>wt_threads := wt_threads s - 1, wt_woken := True\<rparr>"
    by (simp_all split: if_splits)
  with WtThread inv show ?thesis by (simp add: wait_sys_inv_def)
next
  case WtOther
  with step have "s' = s\<lparr>wt_woken := True\<rparr>" and "out' = []" by simp_all
  with WtOther inv show ?thesis by (simp add: wait_sys_inv_def)
qed

interpretation win_wait: task wait_sys_step wait_sys_start wait_sys_inv
  by unfold_locales (simp add: wait_sys_inv_def wait_sys_start_def, rule wait_sys_inv_step)

section \<open>Killing\<close>

text \<open>What \<open>try_recv\<close> on the rendezvous returned.\<close>

datatype kill_recv = GotResult "io_error + unit" | KillEmpty | KillDisconnected

record kill_child =
  kc_handle :: handle
  kc_rx :: bool

definition KillChild_new :: "handle \<Rightarrow> kill_child" where
  "KillChild_new h = \<lparr>kc_handle = h, kc_rx = False\<rparr>"

text \<open>One poll: the value of the future, and whether the thread was started.\<close>

definition KillChild_poll :: "kill_child \<Rightarrow> kill_recv \<Rightarrow> kill_child \<times> (io_error + unit) option \<times> bool" where
  "KillChild_poll k recv =
     (if \<not> kc_rx k then (k\<lparr>kc_rx := True\<rparr>, None, True)
      else
        (case recv of
           GotResult (Inr u) \<Rightarrow> (k, Some (Inr ()), False)
         | GotResult (Inl e) \<Rightarrow> (k, Some (Inl e), False)
         | KillEmpty \<Rightarrow> (k, None, False)
         | KillDisconnected \<Rightarrow> (k, Some (Inr ()), False)))"

text \<open>
  The thread: before \<open>TerminateProcess\<close>; in the blocking \<open>send\<close> on a channel of capacity 0,
  which returns when a receiver takes the value, or with an error when the receiver is gone;
  before \<open>wake\<close>; at its end, where it has dropped its sender.
\<close>

datatype kill_thread = KtNone | KtTerminate | KtSend "io_error + unit" | KtWake | KtEnd

definition kill_recv_of :: "kill_thread \<Rightarrow> kill_recv" where
  "kill_recv_of t =
     (case t of
        KtNone \<Rightarrow> KillEmpty
      | KtTerminate \<Rightarrow> KillEmpty
      | KtSend r \<Rightarrow> GotResult r
      | KtWake \<Rightarrow> KillEmpty
      | KtEnd \<Rightarrow> KillDisconnected)"

text \<open>
  The future, its thread and the task. \<open>ks_alive\<close> tells that the future has neither answered
  nor been dropped.
\<close>

record kill_sys =
  ks_future :: kill_child
  ks_thread :: kill_thread
  ks_alive :: bool
  ks_woken :: bool

datatype kill_event =
    KlPoll
  | KlTerminate "hresult + unit"
  | KlWake
  | KlDrop
  | KlSendFails
  | KlOther

definition kill_sys_start :: "handle \<Rightarrow> kill_sys" where
  "kill_sys_start h =
     \<lparr>ks_future = KillChild_new h, ks_thread = KtNone, ks_alive = True, ks_woken = True\<rparr>"

definition io_other :: "(hresult \<Rightarrow> string) \<Rightarrow> hresult \<Rightarrow> io_error" where
  "io_other hr_fmt e = CustomError ''Other'' (hr_fmt e)"

fun kill_sys_step ::
  "(hresult \<Rightarrow> string) \<Rightarrow> kill_sys \<Rightarrow> kill_event \<Rightarrow> (kill_sys \<times> (io_error + unit) option list) option" where
  "kill_sys_step hr_fmt s KlPoll =
     (if ks_alive s \<and> ks_woken s then
        (case KillChild_poll (ks_future s) (kill_recv_of (ks_thread s)) of
           (k, p, spawned) \<Rightarrow>
             Some (s\<lparr>ks_future := k,
                     ks_thread := (if spawned then KtTerminate
                                   else case ks_thread s of KtSend r \<Rightarrow> KtWake | t \<Rightarrow> t),
                     ks_alive := (p = None), ks_woken := False\<rparr>, [p]))
      else None)"
| "kill_sys_step hr_fmt s (KlTerminate res) =
     (if ks_thread s = KtTerminate
      then Some (s\<lparr>ks_thread := KtSend (map_err (io_other hr_fmt) res)\<rparr>, []) else None)"
| "kill_sys_step hr_fmt s KlWake =
     (if ks_thread s = KtWake then Some (s\<lparr>ks_thread := KtEnd, ks_woken := True\<rparr>, []) else None)"
| "kill_sys_step hr_fmt s KlDrop =
     (if ks_alive s then Some (s\<lparr>ks_alive := False\<rparr>, []) else None)"
| "kill_sys_step hr_fmt s KlSendFails =
     (case ks_thread s of
        KtSend r \<Rightarrow> if ks_alive s then None else Some (s\<lparr>ks_thread := KtWake\<rparr>, [])
      | _ \<Rightarrow> None)"
| "kill_sys_step hr_fmt s KlOther = Some (s\<lparr>ks_woken := True\<rparr>, [])"

fun terminated :: "kill_event \<Rightarrow> (hresult + unit) option" where
  "terminated (KlTerminate res) = Some res"
| "terminated KlPoll = None"
| "terminated KlWake = None"
| "terminated KlDrop = None"
| "terminated KlSendFails = None"
| "terminated KlOther = None"

lemma map_err_id [simp]: "map_err f r = Inr u \<longleftrightarrow> r = Inr u" "map_err f r = Inl e \<longleftrightarrow> (\<exists>x. r = Inl x \<and> e = f x)"
  by (cases r; auto)+

text \<open>Somebody else has woken the task after its first poll.\<close>

definition late_wake :: "kill_event list \<Rightarrow> bool" where
  "late_wake es \<longleftrightarrow> KlOther \<in> set (dropWhile (\<lambda>e. e \<noteq> KlPoll) es)"

lemma late_wake_simps [simp]:
  "\<not> late_wake []"
  "late_wake (es @ [e]) \<longleftrightarrow> late_wake es \<or> (e = KlOther \<and> KlPoll \<in> set es)"
proof -
  show "\<not> late_wake []" by (simp add: late_wake_def)
  show "late_wake (es @ [e]) \<longleftrightarrow> late_wake es \<or> (e = KlOther \<and> KlPoll \<in> set es)"
  proof (cases "KlPoll \<in> set es")
    case True
    then show ?thesis by (auto simp: late_wake_def dropWhile_append1)
  next
    case False
    then have "dropWhile (\<lambda>e. e \<noteq> KlPoll) es = []" by auto
    moreover from False have "dropWhile (\<lambda>e. e \<noteq> KlPoll) (es @ [e]) = dropWhile (\<lambda>e. e \<noteq> KlPoll) [e]"
      by (intro dropWhile_append2) auto
    ultimately show ?thesis using False by (simp add: late_wake_def del: dropWhile_eq_Nil_conv)
  qed
qed

text \<open>
  The thread hands over what \<open>TerminateProcess\<close> returned; it has not run before the first
  poll; and the future answers only in a poll after somebody else has woken the task.
\<close>

definition kill_sys_inv ::
  "(hresult \<Rightarrow> string) \<Rightarrow> kill_event list \<Rightarrow> (io_error + unit) option list \<Rightarrow> kill_sys \<Rightarrow> bool" where
  "kill_sys_inv hr_fmt es out s \<longleftrightarrow>
     (kc_rx (ks_future s) \<longleftrightarrow> KlPoll \<in> set es) \<and> (ks_thread s = KtNone \<longleftrightarrow> KlPoll \<notin> set es)
     \<and> (ks_thread s \<in> {KtNone, KtTerminate} \<longleftrightarrow> pick terminated es = [])
     \<and> (\<forall>r. ks_thread s = KtSend r \<longrightarrow> map (map_err (io_other hr_fmt)) (pick terminated es) = [r])
     \<and> length (pick terminated es) \<le> 1
     \<and> (ks_alive s \<longrightarrow> ks_thread s \<notin> {KtWake, KtEnd} \<and> pick id out = [])
     \<and> (pick id out \<noteq> [] \<longrightarrow> pick id out = map (map_err (io_other hr_fmt)) (pick terminated es) \<and> late_wake es)
     \<and> (ks_alive s \<and> KlPoll \<in> set es \<and> ks_woken s \<longrightarrow> late_wake es)"

lemma kill_sys_inv_step:
  assumes inv: "kill_sys_inv hr_fmt es out s" and step: "kill_sys_step hr_fmt s e = Some (s', out')"
  shows "kill_sys_inv hr_fmt (es @ [e]) (out @ out') s'"
proof (cases e)
  case KlPoll
  with step have alive: "ks_alive s" and woken: "ks_woken s" by (auto split: if_splits)
  show ?thesis
  proof (cases "ks_thread s")
    case KtNone
    with KlPoll step inv alive woken show ?thesis
      by (auto simp: kill_sys_inv_def KillChild_poll_def)
  next
    case KtTerminate
    with KlPoll step inv alive woken show ?thesis
      by (auto simp: kill_sys_inv_def KillChild_poll_def kill_recv_of_def)
  next
    case (KtSend r)
    with KlPoll step inv alive woken show ?thesis
      by (cases r) (auto simp: kill_sys_inv_def KillChild_poll_def kill_recv_of_def)
  qed (use inv alive in \<open>auto simp: kill_sys_inv_def\<close>)
next
  case (KlTerminate res)
  with step inv show ?thesis by (auto simp: kill_sys_inv_def split: if_splits)
next
  case KlWake
  with step inv show ?thesis by (auto simp: kill_sys_inv_def split: if_splits)
next
  case KlDrop
  with step inv show ?thesis by (auto simp: kill_sys_inv_def split: if_splits)
next
  case KlSendFails
  with step inv show ?thesis by (auto simp: kill_sys_inv_def split: if_splits kill_thread.splits)
next
  case KlOther
  with step inv show ?thesis by (auto simp: kill_sys_inv_def)
qed

interpretation win_kill: task "kill_sys_step hr_fmt" "kill_sys_start h" "kill_sys_inv hr_fmt"
  for hr_fmt h
  by unfold_locales (simp add: kill_sys_inv_def kill_sys_start_def KillChild_new_def, rule kill_sys_inv_step)

section \<open>The child\<close>

definition WinChild_pid :: "win_child \<Rightarrow> u32" where
  "WinChild_pid c = p_pid (proc_info c)"

text \<open>
  Taking an output: the handle moves into the thread of a new \<open>WinHandleOutputStream\<close>; the
  handle stands for that stream.
\<close>

definition WinChild_stdout :: "win_child \<Rightarrow> (win_child \<times> handle) rust" where
  "WinChild_stdout c =
     rust_bind (expect ''stdout handle already taken'' (wc_stdout c)) (\<lambda>h. Ret (c\<lparr>wc_stdout := None\<rparr>, h))"

definition WinChild_stderr :: "win_child \<Rightarrow> (win_child \<times> handle) rust" where
  "WinChild_stderr c =
     rust_bind (expect ''stderr handle already taken'' (wc_stderr c)) (\<lambda>h. Ret (c\<lparr>wc_stderr := None\<rparr>, h))"

text \<open>\<open>WaitChild\<close> consists of a handle.\<close>

definition WaitChild_new :: "handle \<Rightarrow> handle" where
  "WaitChild_new h = h"

definition WinChild_wait :: "win_child \<Rightarrow> handle" where
  "WinChild_wait c = WaitChild_new (Handle_clone (p_process (proc_info c)))"

definition WinChild_kill :: "win_child \<Rightarrow> kill_child" where
  "WinChild_kill c = KillChild_new (Handle_clone (p_process (proc_info c)))"

interpretation win_child: child_api WinChild_pid WinChild_stdout WinChild_stderr
    "\<lambda>c. wc_stdout c \<noteq> None" "\<lambda>c. wc_stderr c \<noteq> None"
  by unfold_locales
     (auto simp: WinChild_pid_def WinChild_stdout_def WinChild_stderr_def rust_bind_Ret_iff)

text \<open>\<open>Opts::spawn\<close> on Windows.\<close>

definition Opts_spawn_windows ::
  "win_os \<Rightarrow> u16 list opts \<Rightarrow> raw_handle list \<Rightarrow> raw_handle list \<times> (spawn_error + win_child) rust" where
  "Opts_spawn_windows os opts opened =
     (case WinChild_spawn os opts opened of
        (opened, Panic msg) \<Rightarrow> (opened, Panic msg)
      | (opened, Ret res) \<Rightarrow> (opened, Ret (map_err SpawnWin res)))"

lemma Opts_spawn_windows_Inr:
  "Opts_spawn_windows os opts opened = (opened', Ret (Inr c)) \<longleftrightarrow>
   WinChild_spawn os opts opened = (opened', Ret (Inr c))"
  by (auto simp: Opts_spawn_windows_def split: prod.splits rust.splits)

text \<open>What the spawning of a child has established.\<close>

lemma spawn_child_of:
  assumes os: "os_ok os" and d: "distinct opened" and spawn: "WinChild_spawn os opts opened = (opened', Ret (Inr c))"
  shows "spawn_opened os opts opened opened' c"
  using spawn_cases [OF os d, of opts] spawn by (auto simp: spawn_closed_def spawn_opened_def)

lemma spawn_streams:
  assumes "WinChild_spawn os opts opened = (opened', Ret (Inr c))"
  shows "wc_stdout c \<noteq> None \<and> wc_stderr c \<noteq> None \<and> 0 < WinChild_pid c"
  using assms
  by (auto simp: WinChild_spawn_def leave_def unwind_def Let_def WinChild_pid_def ProcessInfo_from_def
      split: prod.splits rust.splits sum.splits if_splits)

section \<open>Properties\<close>

text \<open>
  C31: a job started on Windows meets the contract that \<open>wait\<close> relies on: both output
  streams can be taken once, and then not again; the process id is positive and stays. The
  futures \<open>wait\<close> and \<open>kill\<close> hold the handle of the process without owning it: dropping them
  closes nothing. But the handle dies with the child: a waiting thread that outlives the
  child is left with a closed handle.
\<close>

theorem win_child_contract:
  assumes os: "os_ok os" and d: "distinct opened"
    and call: "Opts_spawn_windows os opts opened = (opened', Ret (Inr c))"
  shows "0 < WinChild_pid c
    \<and> (\<exists>c' out err. take_streams WinChild_stdout WinChild_stderr c = Ret (c', out, err)
         \<and> WinChild_pid c' = WinChild_pid c \<and> h_inner out \<in> set opened' \<and> h_inner err \<in> set opened'
         \<and> panics (take_streams WinChild_stdout WinChild_stderr c'))
    \<and> h_inner (WinChild_wait c) \<in> set opened'
    \<and> kc_handle (WinChild_kill c) = WinChild_wait c
    \<and> Handle_close os (WinChild_wait c) opened' = (opened', Ret ())
    \<and> (\<exists>o''. WinChild_drop os c opened' = (o'', Ret ()) \<and> h_inner (WinChild_wait c) \<notin> set o'')"
proof -
  from call have spawn: "WinChild_spawn os opts opened = (opened', Ret (Inr c))"
    by (simp add: Opts_spawn_windows_Inr)
  note opened = spawn_child_of [OF os d spawn]
  note parts = spawn_streams [OF spawn]
  from parts obtain out err where outs: "wc_stdout c = Some out" "wc_stderr c = Some err" by blast
  let ?c' = "c\<lparr>wc_stdout := None, wc_stderr := None\<rparr>"
  have taken: "take_streams WinChild_stdout WinChild_stderr c = Ret (?c', out, err)"
    by (simp add: take_streams_def WinChild_stdout_def WinChild_stderr_def outs)
  have handles: "WinChild_handles c = [p_process (proc_info c), p_thread (proc_info c), out, err]"
    by (simp add: WinChild_handles_def outs)
  from opened have set': "set opened' = set opened \<union> set (map h_inner (WinChild_handles c))"
    and d': "distinct opened'" and owned: "owns_all os (WinChild_handles c)"
    and hs: "distinct (map h_inner (WinChild_handles c))"
    by (simp_all add: spawn_opened_def)
  have process: "h_inner (WinChild_wait c) = h_inner (p_process (proc_info c))"
    by (simp add: WinChild_wait_def WaitChild_new_def Handle_clone_def)
  from drop_all_closes [OF os owned hs _ d'] set'
  have "\<exists>o''. WinChild_drop os c opened' = (o'', Ret ()) \<and> h_inner (WinChild_wait c) \<notin> set o''"
    by (auto simp: WinChild_drop_def process handles)
  moreover have "Handle_close os (WinChild_wait c) opened' = (opened', Ret ())"
    by (simp add: WinChild_wait_def WaitChild_new_def clone_never_closes)
  moreover have "kc_handle (WinChild_kill c) = WinChild_wait c"
    by (simp add: WinChild_kill_def KillChild_new_def WinChild_wait_def WaitChild_new_def)
  moreover have "h_inner (WinChild_wait c) \<in> set opened' \<and> h_inner out \<in> set opened' \<and> h_inner err \<in> set opened'"
    using set' by (simp add: process handles)
  moreover from win_child.take_streams_once [OF taken]
  have "panics (take_streams WinChild_stdout WinChild_stderr ?c')" .
  moreover have "WinChild_pid ?c' = WinChild_pid c" by (simp add: WinChild_pid_def)
  ultimately show ?thesis using taken parts by blast
qed

lemma win_child_contract_witness:
  "\<exists>opened' c. Opts_spawn_windows sample_os (Opts_new (JobSpec_new id [120])) [] = (opened', Ret (Inr c))
     \<and> 0 < WinChild_pid c"
proof -
  have "\<exists>o1 c1. Opts_spawn_windows sample_os (Opts_new (JobSpec_new id [120])) [] = (o1, Ret (Inr c1))"
    unfolding Opts_spawn_windows_Inr
    by (simp add: WinChild_spawn_def PipeKind_create_handles_def sample_os_def Opts_new_def JobSpec_new_def
          JobSpec_exe_and_args_def WinArgs_new_def leave_def Handle_close_def Let_def)
  then obtain o1 c1 where c: "Opts_spawn_windows sample_os (Opts_new (JobSpec_new id [120])) [] = (o1, Ret (Inr c1))"
    by blast
  from win_child_contract [OF sample_os_ok _ c] have "0 < WinChild_pid c1" by simp
  with c show ?thesis by blast
qed

text \<open>
  C30: waiting for a Windows process. The future answers only with the exit code of the process,
  or an error of the operating system, and with the code as soon as the process has ended. A
  pending task is never forgotten: it has been woken, or a thread is there to wake it. The
  price: every pending poll leaves one more thread behind, and none of them ends before the
  process does, so while the process runs there are as many waiting threads as polls.
\<close>

theorem win_wait_reports_the_exit:
  assumes run: "run wait_sys_step wait_sys_start es = Some (s, out)"
  shows "(\<forall>r. Some (Inr r) \<in> set out \<longrightarrow> (\<exists>c. pick exit_of es = [c] \<and> r = OsCode c))
    \<and> (out \<noteq> [] \<and> last out = None \<longrightarrow> wt_woken s \<or> 0 < wt_threads s)
    \<and> (\<forall>c. wt_exit s = Some c \<and> out \<noteq> [] \<and> last out = None \<longrightarrow>
         (\<exists>wake s'. run wait_sys_step s (wake @ [WtPoll None]) = Some (s', [Some (Inr (OsCode c))])
            \<and> set wake \<subseteq> {WtThread}))
    \<and> (pick exit_of es = [] \<longrightarrow> wt_threads s = length (filter is_poll es))"
proof -
  note inv = win_wait.run_inv [OF run]
  have "(\<forall>r. Some (Inr r) \<in> set out \<longrightarrow> (\<exists>c. pick exit_of es = [c] \<and> r = OsCode c))"
    using inv by (force simp: wait_sys_inv_def)
  moreover from inv have alive: "out \<noteq> [] \<and> last out = None \<longrightarrow> wt_woken s \<or> 0 < wt_threads s"
    by (simp add: wait_sys_inv_def)
  moreover have "\<exists>wake s'. run wait_sys_step s (wake @ [WtPoll None]) = Some (s', [Some (Inr (OsCode c))])
      \<and> set wake \<subseteq> {WtThread}" if c: "wt_exit s = Some c" and p: "out \<noteq> [] \<and> last out = None" for c
  proof (cases "wt_woken s")
    case True
    with c show ?thesis by (intro exI [of _ "[]"]) (simp add: WaitChild_poll_def)
  next
    case False
    with alive p c show ?thesis by (intro exI [of _ "[WtThread]"]) (simp add: WaitChild_poll_def)
  qed
  moreover have "pick exit_of es = [] \<longrightarrow> wt_threads s = length (filter is_poll es)"
    using inv by (auto simp: wait_sys_inv_def split: option.splits)
  ultimately show ?thesis by blast
qed

text \<open>The task polls twice, the process ends, a thread wakes the task, and it polls again.\<close>

lemma win_wait_reports_the_exit_witness:
  "\<exists>s. run wait_sys_step wait_sys_start [WtPoll None, WtOther, WtPoll None, WtExit 3, WtThread, WtPoll None]
      = Some (s, [None, None, Some (Inr (OsCode 3))]) \<and> OsCode 3 = OsCode (hd (pick exit_of [WtExit 3]))"
proof -
  let ?es = "[WtPoll None, WtOther, WtPoll None, WtExit 3, WtThread, WtPoll None]"
  have "\<exists>s. run wait_sys_step wait_sys_start ?es = Some (s, [None, None, Some (Inr (OsCode 3))])"
    by (simp add: wait_sys_start_def WaitChild_poll_def WAIT_OBJECT_0_def WAIT_TIMEOUT_def)
  then obtain s where run: "run wait_sys_step wait_sys_start ?es = Some (s, [None, None, Some (Inr (OsCode 3))])"
    by blast
  from conjunct1 [OF win_wait_reports_the_exit [OF run]] have "\<exists>c. pick exit_of ?es = [c] \<and> OsCode 3 = OsCode c"
    by simp
  then have "OsCode 3 = OsCode (hd (pick exit_of [WtExit 3]))" by simp
  with run show ?thesis by blast
qed

text \<open>
  C29: killing a Windows process. The future answers what \<open>TerminateProcess\<close> returned, and
  nothing before; but it answers only if something else wakes the task after its first poll.
  Its own thread cannot: it wakes the task only after the rendezvous, which needs the poll.
  Without the other wake the two wait for each other for ever (only dropping the future
  helps); with it, the next poll answers.
\<close>

theorem win_kill_needs_a_wake:
  assumes run: "run (kill_sys_step hr_fmt) (kill_sys_start h) es = Some (s, out)"
  shows "(\<forall>r. Some r \<in> set out \<longrightarrow>
        late_wake es \<and> (\<exists>res. pick terminated es = [res] \<and> r = map_err (io_other hr_fmt) res))
    \<and> (ks_alive s \<and> pick terminated es \<noteq> [] \<and> \<not> late_wake es \<longrightarrow>
        (\<forall>e. kill_sys_step hr_fmt s e \<noteq> None \<longrightarrow> e = KlOther \<or> e = KlDrop))
    \<and> (\<forall>res. ks_alive s \<and> pick terminated es = [res] \<longrightarrow>
        (\<exists>s'. run (kill_sys_step hr_fmt) s [KlOther, KlPoll] = Some (s', [Some (map_err (io_other hr_fmt) res)])))"
proof -
  note inv = win_kill.run_inv [OF run]
  have "late_wake es \<and> (\<exists>res. pick terminated es = [res] \<and> r = map_err (io_other hr_fmt) res)"
    if "Some r \<in> set out" for r
  proof -
    from that have r: "r \<in> set (pick id out)" by (auto simp: set_pick)
    then have "pick id out \<noteq> []" by auto
    with inv have late: "late_wake es" and vals: "pick id out = map (map_err (io_other hr_fmt)) (pick terminated es)"
      and one: "length (pick terminated es) \<le> 1"
      by (simp_all add: kill_sys_inv_def)
    from r one obtain res where "pick terminated es = [res]" unfolding vals
      by (cases "pick terminated es") auto
    with r late show ?thesis unfolding vals by simp
  qed
  moreover have offered: "\<exists>r. ks_thread s = KtSend r \<and> map (map_err (io_other hr_fmt)) (pick terminated es) = [r]
      \<and> kc_rx (ks_future s) \<and> KlPoll \<in> set es"
    if "ks_alive s" and "pick terminated es \<noteq> []"
    using inv that by (cases "ks_thread s") (auto simp: kill_sys_inv_def)
  have "e = KlOther \<or> e = KlDrop"
    if stuck: "ks_alive s \<and> pick terminated es \<noteq> [] \<and> \<not> late_wake es" and "kill_sys_step hr_fmt s e \<noteq> None" for e
  proof -
    from offered stuck obtain r where "ks_thread s = KtSend r" and "KlPoll \<in> set es" by blast
    moreover from inv stuck this(2) have "\<not> ks_woken s" by (simp add: kill_sys_inv_def)
    ultimately show ?thesis using that by (cases e) simp_all
  qed
  moreover have "\<exists>s'. run (kill_sys_step hr_fmt) s [KlOther, KlPoll] = Some (s', [Some (map_err (io_other hr_fmt) res)])"
    if one: "ks_alive s \<and> pick terminated es = [res]" for res
  proof -
    from offered one have "ks_thread s = KtSend (map_err (io_other hr_fmt) res)" and "kc_rx (ks_future s)" by auto
    with one show ?thesis
      by (cases res) (simp_all add: KillChild_poll_def kill_recv_of_def)
  qed
  ultimately show ?thesis by blast
qed

text \<open>The thread has terminated the process, and nobody wakes the task.\<close>

lemma win_kill_needs_a_wake_witness:
  "\<exists>s. run (kill_sys_step (\<lambda>e. [])) (kill_sys_start (Handle_owned 5 ProcessH)) [KlPoll, KlTerminate (Inr ())] = Some (s, [None])
     \<and> kill_sys_step (\<lambda>e. []) s KlPoll = None \<and> kill_sys_step (\<lambda>e. []) s KlWake = None"
proof -
  have "\<exists>s. run (kill_sys_step (\<lambda>e. [])) (kill_sys_start (Handle_owned 5 ProcessH)) [KlPoll, KlTerminate (Inr ())] = Some (s, [None])
      \<and> ks_alive s"
    by (simp add: kill_sys_start_def KillChild_new_def KillChild_poll_def)
  then obtain s where
    run: "run (kill_sys_step (\<lambda>e. [])) (kill_sys_start (Handle_owned 5 ProcessH)) [KlPoll, KlTerminate (Inr ())] = Some (s, [None])"
    and "ks_alive s" by blast
  moreover have "\<not> late_wake [KlPoll, KlTerminate (Inr ())]" by (simp add: late_wake_def)
  moreover note conjunct1 [OF conjunct2 [OF win_kill_needs_a_wake [OF run]]]
  ultimately have "\<forall>e. kill_sys_step (\<lambda>e. []) s e \<noteq> None \<longrightarrow> e = KlOther \<or> e = KlDrop" by simp
  then have "kill_sys_step (\<lambda>e. []) s KlPoll = None" and "kill_sys_step (\<lambda>e. []) s KlWake = None"
    by blast+
  with run show ?thesis by blast
qed

end
