(* ===== verification/Spec2Isabelle.thy ===== *)
theory Spec2Isabelle
  imports JobTable KillPath LogPath ManyClients Startup WinStream WinProcess
begin

text \<open>
  A verification library for the job runner: a server that starts programs for its clients
  over gRPC with mutual TLS, keeps their output, and lets the client that started a job ask
  for its state, read its output from the beginning, and kill it.

  \<^bold>\<open>The program and the theories.\<close> Paths are relative to \<open>src/src\<close>.

  \<^item> \<open>Prelude\<close>: machine integers as words, \<open>Result\<close> as a sum, panics as values of \<open>rust\<close>,
    tasks as option-valued step functions over events, and the locales that lift invariants
    from steps to runs (\<open>task\<close>) and show that a task which owns a sender never sees the end
    of its own channel (\<open>self_held\<close>).
  \<^item> \<open>Types\<close> (\<open>proc/types.rs\<close>): users, contexts, job specifications, jobs and their states.
  \<^item> \<open>Frames\<close> (\<open>proc/coord.rs\<close>, \<open>JobTracker::consume_output\<close>): a task per output stream of
    the child cuts what it reads into frames and sends them to the tracker.
  \<^item> \<open>Tracker\<close> (\<open>proc/coord.rs\<close>, \<open>JobTracker\<close>): the task \<open>wait\<close> of a job, which merges the
    frames of both streams into the channel of the broadcaster, serves requests to kill the
    child, and records its exit. The state \<open>wait_state\<close> holds the locals of \<open>wait\<close> and the
    shared \<open>JobTrackerInner\<close>; \<open>wait_step\<close> is one turn of the \<open>select!\<close> loop, with one event
    constructor per branch.
  \<^item> \<open>Broadcaster\<close> and \<open>Relay\<close> (\<open>proc/coord.rs\<close>, \<open>FrameBroadcaster\<close>, \<open>FrameRelay\<close>): the
    broadcaster keeps the whole log and starts, for every client that asks, a relay with a
    snapshot of it; the relay sends the snapshot and what follows to its client.
  \<^item> \<open>Spawn\<close> (\<open>proc/spawn/mod.rs\<close>): \<open>Opts::spawn\<close> and the \<open>Child\<close> of Unix; the locale
    \<open>child_api\<close> is what the tracker relies on.
  \<^item> \<open>WinHandle\<close>, \<open>WinStream\<close>, \<open>WinProcess\<close> (\<open>proc/spawn/win.rs\<close>): handles and \<open>Child::spawn\<close>;
    the output streams with their reading threads (the locale \<open>byte_source\<close> is what
    \<open>consume_output\<close> relies on); the futures \<open>WaitChild\<close> and \<open>KillChild\<close> with their threads and
    the task that polls them, and the second instance of \<open>child_api\<close>.
  \<^item> \<open>Coordinator\<close> (\<open>proc/coord.rs\<close>, \<open>MemoryCoordinator\<close>): the table of jobs and the four
    operations; a tracker, a shared reference in the code, is an index into the list of all
    trackers. The locale \<open>coordinator\<close> is the contract of the four operations.
  \<^item> \<open>JobSystem\<close>: the coordinator and the tasks of all trackers as one transition system in
    which calls and task steps interleave in any order, and how a kill of the owner takes
    effect in it; \<open>JobTable\<close>: the abstract table of jobs that this system refines, by the locale
    \<open>refinement_map\<close>.
  \<^item> \<open>Pb\<close> (\<open>pb/jobs.rs\<close>), \<open>Grpc\<close> (\<open>grpc.rs\<close>), \<open>Client\<close> (\<open>bin/client.rs\<close>): messages, the
    generated client and server with their settings and dispatch; interceptor, validation,
    conversions, the four handlers, the task behind a stream of logs, and the whole service
    on the network, behind tonic's router (\<open>add_service\<close>); what the command line client does with
    the answers.
  \<^item> \<open>Startup\<close> (\<open>utils.rs\<close>, the TLS part of \<open>grpc.rs\<close>, the \<open>main\<close> functions of \<open>bin/server.rs\<close> and
    \<open>bin/client.rs\<close>): reading PEM files, installing the crypto provider, and what the two
    programs hand to tonic before they serve or call: configuration, service, address, shutdown.
  \<^item> \<open>KillPath\<close>: a kill on its way from the gRPC call through the coordinator to the task of the
    job and back.
  \<^item> \<open>LogPath\<close>: the calls, the coordinator, the tasks of every job and the stream behind every
    answered call of \<open>logs\<close>, down to the terminal of the caller, as one transition system. Its
    state is the one of \<open>JobSystem\<close> with, at the index of each tracker, the tasks that \<open>track\<close>
    starts with it (\<open>start_tasks\<close>), and the list of the streams; what a broadcaster answers is
    what its own task has started (\<open>bcast_answer\<close>).
  \<^item> \<open>EndToEnd\<close>: all tasks between the output of a child and the standard streams of a client,
    joined by their channels.
  \<^item> \<open>Pipeline\<close>, \<open>NetInvariant\<close>, \<open>Delivery\<close>: the same tasks as a closed system, in which a
    schedule decides which task takes its next event, the channels have the capacities of
    the code, requests to kill the child come, and reading a stream or waiting for the child may
    fail; its invariant; and that every schedule delivers the log. \<open>ManyClients\<close>: the job of this
    system among any number of clients that come and go, by a simulation of the job alone
    (\<open>same_job_side\<close>), and what a client that comes late is given.

  \<^bold>\<open>What is shown.\<close> \<open>EndToEnd\<close>: a client prints a prefix of what the child wrote, and all of
  it when it ends without an error and nobody on the way went away early; two clients of a
  job see the same frames in the same order whenever they ask. \<open>Delivery\<close>: under every
  schedule the tasks come to rest after boundedly many moves, and then the client has ended and
  printed everything, or been told of the failure, unless the broadcaster has given the relay
  up; no schedule makes it do so exactly when the output makes fewer than 1024 frames.
  \<open>ManyClients\<close>: whatever its clients do, a job takes exactly the events that it takes alone, it
  needs no client to come to its end, its exit or the failure has then been recorded, and any
  later client is given the whole log, whatever its length. \<open>JobSystem\<close>, \<open>JobTable\<close>: under
  every interleaving the visible jobs behave like a plain table, only the owner's kill is
  ever recorded, a job keeps its identity and never comes back to life, and the owner can
  kill a running job. \<open>KillPath\<close>: a kill that is answered positively has killed the owner's job;
  \<open>LogPath\<close>: in every reachable state a log that is served is read by its owner and comes from
  the child of the requested job. \<open>Grpc\<close>: a call to the service without a certificate is
  refused, one with a certificate reaches its handler; to anyone but its owner a job looks
  like one that does not exist; a spawn runs exactly the requested command. \<open>Startup\<close>: both ends
  insist on certificates. \<open>Tracker\<close>, \<open>Broadcaster\<close>, \<open>Relay\<close>, \<open>Frames\<close>: what each task passes
  on, in which order and exactly once, by which events its loop ends, and what becomes of kill
  requests. Windows: spawning leaks no handle on any path, a stream
  delivers the bytes of its pipe, and a waiting task is always woken.

  Some theorems state flaws: a job ended by a signal makes the handlers panic
  (\<open>signalled_job_panics_the_server\<close>); a read error that comes before the exit leaves a job
  running for ever (\<open>read_error_leaves_job_running\<close>); a relay that falls 1024 events behind the
  broadcaster is given up without an end of its log (\<open>refused_relay_is_abandoned\<close>,
  \<open>delivery_up_to_the_capacity\<close>), and one that has served its client never ends
  (\<open>served_relay_never_returns\<close>); the task of a broadcaster never ends
  (\<open>logs_are_served_for_ever\<close>); on Windows a kill hangs unless an unrelated wake comes to its
  help (\<open>win_kill_needs_a_wake\<close>), every poll of a wait leaves a thread behind
  (\<open>win_wait_reports_the_exit\<close>), these threads outlive the handle they use
  (\<open>win_child_contract\<close>), and arguments with spaces are split, those with a zero cut off
  (\<open>win_command_line\<close>).

  \<^bold>\<open>Parameters and hypotheses.\<close> The runtime is the list of events: any list is allowed, so
  the theorems hold for every schedule and every answer of the operating system. Code outside
  the repository is an argument with its documented contract as a named hypothesis: channels
  deliver in order (\<open>fifo\<close>), \<open>recv\<close> reports the end of a channel only when no sender is left
  (\<open>closed_only_unheld\<close>), an answer received on a request is one that the task has sent
  (\<open>replies_of_task\<close>), tokio honours the pipes that a command asks for
  (\<open>pipes_honoured\<close>), a read reports no more bytes than fit (\<open>read_within\<close>, \<open>file_ok\<close>), the
  client of tonic sends encoded messages and its server decodes those that pass its settings
  (\<open>client_ok\<close>, \<open>server_ok\<close>), prost's getter for enumerations inverts the
  numbers (\<open>kind_getter\<close>), and Windows hands out fresh handles and closes open ones
  (\<open>os_ok\<close>). Each is met by a concrete instance in a witness. Time, identifiers, certificates
  and the texts of foreign errors are arguments.

  \<^bold>\<open>Bounds.\<close> Every definition is total and no fuel is used: a task consumes one event per
  step, and the loop that ends by itself (the end of \<open>wait\<close>) is shown to end. Integers have
  their width; the buffer of a stream has 1024 bytes. In the theorems on single tasks the
  capacity of a bounded channel is the outcome of a send or of \<open>try_send\<close>; in \<open>Pipeline\<close> the
  channels have the capacities of the code: 16 for a stream, 2 into the broadcaster, 1024 on
  either side of a relay, 1 for the response. There a schedule has at most 8 moves per frame,
  one per request to kill, and 18 more; one client asks for the log and stays. In
  \<open>ManyClients\<close> any number of them come and go, and whether a relay has room is arbitrary; the
  bound then counts the moves of the job. In \<open>LogPath\<close> channels are queues without a bound.

  \<^bold>\<open>Not modelled.\<close> Parsing of arguments (clap), tracing, and what rustls and tonic do with the
  configuration they are given: foreign code and pure I/O. The texts of \<open>Debug\<close> occur in log
  messages only. The build script and module files have no behaviour, and tests are not code of
  the program. \<open>WinArgs::as_pwstr\<close> is a cast. What happens to running children when the server
  process quits is left to \<open>kill_on_drop\<close> of tokio; on Windows the code does nothing about it.
\<close>

end
